theory Spec2Isabelle
  imports Main "HOL-Library.Word"
begin

section \<open>Values shared by the lease and mutable packages\<close>

type_synonym int64 = "64 word"
type_synonym byte = "8 word"

text \<open>A \<^verbatim>\<open>time.Time\<close> as delivered by the injected clock.\<close>

type_synonym time = nat

text \<open>
  Go error values. \<open>RevokedError\<close> is \<^verbatim>\<open>*lease.RevokedError\<close>, \<open>EOF\<close> is
  \<^verbatim>\<open>io.EOF\<close>, \<open>OtherError\<close> is any other error value handed back by a dependency.
  The remaining constructors are the values built with \<^verbatim>\<open>fmt.Errorf\<close> in the two
  source files; \<open>Wrapped prefix e\<close> stands for \<^verbatim>\<open>fmt.Errorf("prefix: %v", e)\<close>, which is a
  fresh error value and therefore neither a revocation error nor \<^verbatim>\<open>io.EOF\<close>.
\<close>

datatype error =
    RevokedError
  | EOF
  | OtherError string
  | Wrapped string error
  | WrappedAt string nat error
  | InvalidOffset int64
  | IllegalOffset int64
  | ShortWrappedRead nat int nat int64
  | UnexpectedWrappedEOF nat int int64 int64

text \<open>
  A call either panics (the message is kept) or returns. A panicking call leaves no
  state behind for its caller.
\<close>

datatype 'a result = Panic string | Return 'a

text \<open>
  A callee that is handed a buffer \<open>p\<close> stores some bytes \<open>w\<close> at its front; the length
  of the caller's slice cannot change.
\<close>

definition stored :: "byte list \<Rightarrow> byte list \<Rightarrow> byte list" where
  "stored w p = take (length p) w @ drop (length w) p"

section \<open>The interfaces the code depends on\<close>

text \<open>
  \<^verbatim>\<open>lease.ReadProxy\<close>, \<^verbatim>\<open>lease.ReadWriteLease\<close>, \<^verbatim>\<open>lease.ReadLease\<close> and
  \<^verbatim>\<open>lease.FileLeaser\<close> are interfaces; the code under study only calls their methods.
  An interface value is modelled by the state of the object behind it (a type
  parameter) together with a dictionary of its methods. Every method takes the object's
  state and returns the state it leaves behind next to its Go results. A read method
  is given the length of the buffer and answers with the bytes it stored at the front
  of the buffer, the count it reports and its error.
\<close>

record ('p, 'l) ReadProxy =
  rp_Size :: "'p \<Rightarrow> int64"
  rp_ReadAt :: "'p \<Rightarrow> nat \<Rightarrow> int64 \<Rightarrow> 'p \<times> byte list \<times> int \<times> error option"
  rp_Upgrade :: "'p \<Rightarrow> 'p \<times> (error + 'l)"
  rp_CheckInvariants :: "'p \<Rightarrow> bool"

text \<open>
  Of a read/write lease the code uses the positional calls, \<^verbatim>\<open>Seek\<close>, the chain
  \<^verbatim>\<open>Downgrade().Revoke()\<close> (\<open>rwl_Revoke\<close>: what is left of the handle) and
  \<^verbatim>\<open>io.Copy(dst, src)\<close> between two leases (\<open>rwl_Copy\<close>, destination first).
\<close>

record 'l ReadWriteLease =
  rwl_ReadAt :: "'l \<Rightarrow> nat \<Rightarrow> int64 \<Rightarrow> 'l \<times> byte list \<times> int \<times> error option"
  rwl_WriteAt :: "'l \<Rightarrow> byte list \<Rightarrow> int64 \<Rightarrow> 'l \<times> int \<times> error option"
  rwl_Truncate :: "'l \<Rightarrow> int64 \<Rightarrow> 'l \<times> error option"
  rwl_Size :: "'l \<Rightarrow> 'l \<times> int64 \<times> error option"
  rwl_Seek :: "'l \<Rightarrow> int64 \<Rightarrow> int \<Rightarrow> 'l \<times> int64 \<times> error option"
  rwl_Copy :: "'l \<Rightarrow> 'l \<Rightarrow> 'l \<times> 'l \<times> int64 \<times> error option"
  rwl_Revoke :: "'l \<Rightarrow> 'l"

record ('r, 'l) ReadLease =
  rl_Size :: "'r \<Rightarrow> int64"
  rl_ReadAt :: "'r \<Rightarrow> nat \<Rightarrow> int64 \<Rightarrow> 'r \<times> byte list \<times> int \<times> error option"
  rl_Upgrade :: "'r \<Rightarrow> 'r \<times> (error + 'l)"

record ('f, 'l) FileLeaser =
  fl_NewFile :: "'f \<Rightarrow> 'f \<times> (error + 'l)"

section \<open>mutable/content.go\<close>

record StatResult =
  Size :: int64
  DirtyThreshold :: int64
  Mtime :: "time option"

record ('p, 'l) mutableContent =
  destroyed :: bool
  initialContent :: "'p option"
  readWriteLease :: "'l option"
  dirtyThreshold :: int64
  mtime :: "time option"

definition NewContent :: "('p, 'l) ReadProxy \<Rightarrow> 'p \<Rightarrow> ('p, 'l) mutableContent" where
  "NewContent P initial =
     \<lparr> destroyed = False,
       initialContent = Some initial,
       readWriteLease = None,
       dirtyThreshold = rp_Size P initial,
       mtime = None \<rparr>"

definition MaxInt64 :: int64 where
  "MaxInt64 = 0x7FFFFFFFFFFFFFFF"

definition minInt64 :: "int64 \<Rightarrow> int64 \<Rightarrow> int64" where
  "minInt64 a b = (if word_sless a b then a else b)"

definition dirty :: "('p, 'l) mutableContent \<Rightarrow> bool" where
  "dirty mc = (readWriteLease mc \<noteq> None)"

text \<open>
  \<^verbatim>\<open>CheckInvariants\<close>: the panic it raises, if any. The checks are in the order of the
  source.
\<close>

definition mc_CheckInvariants ::
  "('p, 'l) ReadProxy \<Rightarrow> ('p, 'l) mutableContent \<Rightarrow> unit result" where
  "mc_CheckInvariants P mc =
     (if destroyed mc then Panic ''Use of destroyed mutableContent object.''
      else if (case initialContent mc of None \<Rightarrow> False | Some p \<Rightarrow> \<not> rp_CheckInvariants P p)
        then Panic ''initialContent.CheckInvariants''
      else if initialContent mc = None \<and> readWriteLease mc = None
        then Panic ''Both initialContent and readWriteLease are nil''
      else if initialContent mc \<noteq> None \<and> readWriteLease mc \<noteq> None
        then Panic ''Both initialContent and readWriteLease are non-nil''
      else if dirty mc \<and> mtime mc = None
        then Panic ''Expected non-nil mtime.''
      else if (case initialContent mc of None \<Rightarrow> False
               | Some p \<Rightarrow> dirtyThreshold mc \<noteq> rp_Size P p)
        then Panic ''Dirty threshold mismatch''
      else Return ())"

text \<open>
  \<^verbatim>\<open>Destroy\<close> hands the proxy and the lease to their own destructors and forgets them.
\<close>

definition mc_Destroy :: "('p, 'l) mutableContent \<Rightarrow> ('p, 'l) mutableContent" where
  "mc_Destroy mc = mc\<lparr> destroyed := True, initialContent := None, readWriteLease := None \<rparr>"

definition mc_Release ::
  "('p, 'l) mutableContent \<Rightarrow> ('p, 'l) mutableContent \<times> 'l option" where
  "mc_Release mc =
     (if \<not> dirty mc then (mc, None)
      else (mc_Destroy (mc\<lparr> readWriteLease := None \<rparr>), readWriteLease mc))"

text \<open>
  \<^verbatim>\<open>ReadAt\<close> takes the caller's buffer and returns it as the callee left it. With neither
  a lease nor a proxy the method call on the nil interface panics.
\<close>

definition mc_ReadAt ::
  "('p, 'l) ReadProxy \<Rightarrow> 'l ReadWriteLease \<Rightarrow> ('p, 'l) mutableContent \<Rightarrow> byte list \<Rightarrow> int64 \<Rightarrow>
     (('p, 'l) mutableContent \<times> byte list \<times> int \<times> error option) result" where
  "mc_ReadAt P L mc buf offset =
     (case readWriteLease mc of
        Some l \<Rightarrow>
          (case rwl_ReadAt L l (length buf) offset of
             (l', w, n, err) \<Rightarrow> Return (mc\<lparr> readWriteLease := Some l' \<rparr>, stored w buf, n, err))
      | None \<Rightarrow>
          (case initialContent mc of
             None \<Rightarrow> Panic ''nil pointer dereference''
           | Some p \<Rightarrow>
               (case rp_ReadAt P p (length buf) offset of
                  (p', w, n, err) \<Rightarrow>
                    Return (mc\<lparr> initialContent := Some p' \<rparr>, stored w buf, n, err))))"

definition mc_Stat ::
  "('p, 'l) ReadProxy \<Rightarrow> 'l ReadWriteLease \<Rightarrow> ('p, 'l) mutableContent \<Rightarrow>
     (('p, 'l) mutableContent \<times> StatResult \<times> error option) result" where
  "mc_Stat P L mc =
     (case readWriteLease mc of
        Some l \<Rightarrow>
          (case rwl_Size L l of
             (l', sz, err) \<Rightarrow>
               Return (mc\<lparr> readWriteLease := Some l' \<rparr>,
                       \<lparr> Size = sz, DirtyThreshold = dirtyThreshold mc, Mtime = mtime mc \<rparr>,
                       err))
      | None \<Rightarrow>
          (case initialContent mc of
             None \<Rightarrow> Panic ''nil pointer dereference''
           | Some p \<Rightarrow>
               Return (mc,
                       \<lparr> Size = rp_Size P p, DirtyThreshold = dirtyThreshold mc,
                         Mtime = mtime mc \<rparr>,
                       None)))"

text \<open>
  \<^verbatim>\<open>ensureReadWriteLease\<close>: nothing to do with a lease in hand; otherwise the proxy is
  upgraded, and only a successful upgrade touches the fields.
\<close>

definition ensureReadWriteLease ::
  "('p, 'l) ReadProxy \<Rightarrow> ('p, 'l) mutableContent \<Rightarrow>
     (('p, 'l) mutableContent \<times> error option) result" where
  "ensureReadWriteLease P mc =
     (if readWriteLease mc \<noteq> None then Return (mc, None)
      else
        (case initialContent mc of
           None \<Rightarrow> Panic ''nil pointer dereference''
         | Some p \<Rightarrow>
             (case rp_Upgrade P p of
                (p', Inl e) \<Rightarrow>
                  Return (mc\<lparr> initialContent := Some p' \<rparr>,
                          Some (Wrapped ''initialContent.Upgrade'' e))
              | (p', Inr rwl) \<Rightarrow>
                  Return (mc\<lparr> readWriteLease := Some rwl, initialContent := None \<rparr>, None))))"

text \<open>The argument \<open>now\<close> is what \<^verbatim>\<open>mc.clock.Now()\<close> answers during the call.\<close>

definition mc_WriteAt ::
  "('p, 'l) ReadProxy \<Rightarrow> 'l ReadWriteLease \<Rightarrow> time \<Rightarrow> ('p, 'l) mutableContent \<Rightarrow>
     byte list \<Rightarrow> int64 \<Rightarrow> (('p, 'l) mutableContent \<times> int \<times> error option) result" where
  "mc_WriteAt P L now mc buf offset =
     (case ensureReadWriteLease P mc of
        Panic m \<Rightarrow> Panic m
      | Return (mc1, Some e) \<Rightarrow> Return (mc1, 0, Some (Wrapped ''ensureReadWriteLease'' e))
      | Return (mc1, None) \<Rightarrow>
          (let mc2 = mc1\<lparr> dirtyThreshold := minInt64 (dirtyThreshold mc1) offset,
                          mtime := Some now \<rparr>
           in case readWriteLease mc2 of
                None \<Rightarrow> Panic ''nil pointer dereference''
              | Some l \<Rightarrow>
                  (case rwl_WriteAt L l buf offset of
                     (l', n, err) \<Rightarrow> Return (mc2\<lparr> readWriteLease := Some l' \<rparr>, n, err))))"

definition mc_Truncate ::
  "('p, 'l) ReadProxy \<Rightarrow> 'l ReadWriteLease \<Rightarrow> time \<Rightarrow> ('p, 'l) mutableContent \<Rightarrow>
     int64 \<Rightarrow> (('p, 'l) mutableContent \<times> error option) result" where
  "mc_Truncate P L now mc n =
     (case ensureReadWriteLease P mc of
        Panic m \<Rightarrow> Panic m
      | Return (mc1, Some e) \<Rightarrow> Return (mc1, Some (Wrapped ''ensureReadWriteLease'' e))
      | Return (mc1, None) \<Rightarrow>
          (if word_sless MaxInt64 n then Return (mc1, Some (IllegalOffset n))
           else
             (let mc2 = mc1\<lparr> dirtyThreshold := minInt64 (dirtyThreshold mc1) n,
                             mtime := Some now \<rparr>
              in case readWriteLease mc2 of
                   None \<Rightarrow> Panic ''nil pointer dereference''
                 | Some l \<Rightarrow>
                     (case rwl_Truncate L l n of
                        (l', err) \<Rightarrow> Return (mc2\<lparr> readWriteLease := Some l' \<rparr>, err)))))"

subsection \<open>The invariants written on the fields\<close>

text \<open>
  The three \<^verbatim>\<open>INVARIANT\<close> comments on \<open>readWriteLease\<close>, \<open>mtime\<close> and \<open>dirtyThreshold\<close>,
  which \<^verbatim>\<open>CheckInvariants\<close> tests after the destroyed flag and the proxy's own check.
\<close>

definition fieldInvariants :: "('p, 'l) ReadProxy \<Rightarrow> ('p, 'l) mutableContent \<Rightarrow> bool" where
  "fieldInvariants P mc =
     ((initialContent mc = None) \<noteq> (readWriteLease mc = None) \<and>
      (dirty mc \<longrightarrow> mtime mc \<noteq> None) \<and>
      (case initialContent mc of None \<Rightarrow> True | Some p \<Rightarrow> dirtyThreshold mc = rp_Size P p))"

text \<open>
  The size of a read proxy is constant data: no call on the proxy changes what
  \<^verbatim>\<open>Size()\<close> answers.
\<close>

definition Size_constant :: "('p, 'l) ReadProxy \<Rightarrow> bool" where
  "Size_constant P =
     ((\<forall>p len off. rp_Size P (fst (rp_ReadAt P p len off)) = rp_Size P p) \<and>
      (\<forall>p. rp_Size P (fst (rp_Upgrade P p)) = rp_Size P p))"

subsection \<open>Sequences of calls\<close>

text \<open>
  A caller issues calls one after the other on the same object; a panic ends the
  sequence. The results handed back by each call are dropped, the object is kept.
\<close>

datatype call =
    CallReadAt "byte list" int64
  | CallStat
  | CallWriteAt time "byte list" int64
  | CallTruncate time int64

fun perform ::
  "('p, 'l) ReadProxy \<Rightarrow> 'l ReadWriteLease \<Rightarrow> ('p, 'l) mutableContent \<Rightarrow> call \<Rightarrow>
     ('p, 'l) mutableContent result" where
  "perform P L mc (CallReadAt buf off) =
     (case mc_ReadAt P L mc buf off of Panic m \<Rightarrow> Panic m | Return (mc', _) \<Rightarrow> Return mc')"
| "perform P L mc CallStat =
     (case mc_Stat P L mc of Panic m \<Rightarrow> Panic m | Return (mc', _) \<Rightarrow> Return mc')"
| "perform P L mc (CallWriteAt now buf off) =
     (case mc_WriteAt P L now mc buf off of Panic m \<Rightarrow> Panic m | Return (mc', _) \<Rightarrow> Return mc')"
| "perform P L mc (CallTruncate now n) =
     (case mc_Truncate P L now mc n of Panic m \<Rightarrow> Panic m | Return (mc', _) \<Rightarrow> Return mc')"

fun performAll ::
  "('p, 'l) ReadProxy \<Rightarrow> 'l ReadWriteLease \<Rightarrow> ('p, 'l) mutableContent \<Rightarrow> call list \<Rightarrow>
     ('p, 'l) mutableContent result" where
  "performAll P L mc [] = Return mc"
| "performAll P L mc (c # cs) =
     (case perform P L mc c of Panic m \<Rightarrow> Panic m | Return mc' \<Rightarrow> performAll P L mc' cs)"

section \<open>lease/multi_read_proxy.go\<close>

text \<open>
  The fields of \<^verbatim>\<open>multiReadProxy\<close> carry the receiver's name as a prefix; an entry of
  \<open>mrp_rps\<close> is a \<^verbatim>\<open>readProxyAndOffset\<close>, the offset first.
\<close>

record ('p, 'r, 'f) multiReadProxy =
  mrp_size :: int64
  mrp_leaser :: 'f
  mrp_rps :: "(int64 \<times> 'p) list"
  mrp_lease :: "'r option"
  mrp_destroyed :: bool

text \<open>
  The loop of \<^verbatim>\<open>NewMultiReadProxy\<close>. \<open>wrap\<close> is \<^verbatim>\<open>NewReadProxy(fl, r, nil)\<close> as a
  function of the refresher \<open>r\<close>; that constructor is not part of the two files.
\<close>

fun wrapRefreshers ::
  "('p, 'l) ReadProxy \<Rightarrow> ('q \<Rightarrow> 'p) \<Rightarrow> 'q list \<Rightarrow> (int64 \<times> 'p) list \<Rightarrow> int64 \<Rightarrow>
     (int64 \<times> 'p) list \<times> int64" where
  "wrapRefreshers P wrap [] wrappedProxies sz = (wrappedProxies, sz)"
| "wrapRefreshers P wrap (r # rs) wrappedProxies sz =
     (let wrapped = wrap r
      in wrapRefreshers P wrap rs (wrappedProxies @ [(sz, wrapped)]) (sz + rp_Size P wrapped))"

definition NewMultiReadProxy ::
  "('p, 'l) ReadProxy \<Rightarrow> ('r, 'l) ReadLease \<Rightarrow> ('f \<Rightarrow> 'q \<Rightarrow> 'p) \<Rightarrow> 'f \<Rightarrow> 'q list \<Rightarrow> 'r option \<Rightarrow>
     ('p, 'r, 'f) multiReadProxy result" where
  "NewMultiReadProxy P R NewReadProxy fl refreshers rl =
     (case wrapRefreshers P (NewReadProxy fl) refreshers [] 0 of
        (wrappedProxies, sz) \<Rightarrow>
          if (case rl of None \<Rightarrow> False | Some l \<Rightarrow> rl_Size R l \<noteq> sz)
          then Panic ''Provided read lease doesn't match combined size''
          else Return \<lparr> mrp_size = sz, mrp_leaser = fl, mrp_rps = wrappedProxies,
                        mrp_lease = rl, mrp_destroyed = False \<rparr>)"

definition mrp_Size :: "('p, 'r, 'f) multiReadProxy \<Rightarrow> int64" where
  "mrp_Size mrp = mrp_size mrp"

text \<open>
  \<^verbatim>\<open>sort.Search\<close> of Go's standard library: the binary search itself, so that its answer
  is the library's also where the predicate is not monotone.
\<close>

function Search_from :: "(nat \<Rightarrow> bool) \<Rightarrow> nat \<Rightarrow> nat \<Rightarrow> nat" where
  "Search_from f i j =
     (if i < j
      then (let h = (i + j) div 2
            in if \<not> f h then Search_from f (h + 1) j else Search_from f i h)
      else i)"
  by pat_completeness auto
termination
  by (relation "measure (\<lambda>(f, i, j). j - i)") auto

declare Search_from.simps [simp del]

definition sort_Search :: "nat \<Rightarrow> (nat \<Rightarrow> bool) \<Rightarrow> nat" where
  "sort_Search n f = Search_from f 0 n"

definition upperBound :: "('p, 'r, 'f) multiReadProxy \<Rightarrow> int64 \<Rightarrow> nat" where
  "upperBound mrp off =
     sort_Search (length (mrp_rps mrp)) (\<lambda>i. word_sless off (fst (mrp_rps mrp ! i)))"

text \<open>The deferred function of \<^verbatim>\<open>readFromOne\<close>, run on the values being returned.\<close>

definition readFromOne_deferred ::
  "int \<Rightarrow> error option \<Rightarrow> nat \<Rightarrow> int64 \<Rightarrow> int64 \<Rightarrow> int64 \<Rightarrow> 'a \<Rightarrow> 'a result" where
  "readFromOne_deferred n err len_p off wrappedStart wrappedSize r =
     (if err = None \<and> \<not> (n = int len_p \<or> off + word_of_int n = wrappedStart + wrappedSize)
      then Panic ''Failed to serve full read.''
      else if err = Some EOF then Panic ''Unexpected EOF.''
      else Return r)"

definition readFromOne ::
  "('p, 'l) ReadProxy \<Rightarrow> ('p, 'r, 'f) multiReadProxy \<Rightarrow> nat \<Rightarrow> byte list \<Rightarrow> int64 \<Rightarrow>
     (('p, 'r, 'f) multiReadProxy \<times> byte list \<times> int \<times> error option) result" where
  "readFromOne P mrp index p off =
     (if \<not> index < length (mrp_rps mrp) then Panic ''Out of range wrapped index''
      else
        (let wrapped = snd (mrp_rps mrp ! index);
             wrappedStart = fst (mrp_rps mrp ! index);
             wrappedSize = rp_Size P wrapped
         in if \<not> (word_sle wrappedStart off \<and> word_sless off (wrappedStart + wrappedSize))
            then Panic ''Offset not in range''
            else
              (let wrappedOff = off - wrappedStart
               in case rp_ReadAt P wrapped (length p) wrappedOff of
                    (wrapped', w, n, err) \<Rightarrow>
                      (let mrp' = mrp\<lparr> mrp_rps := (mrp_rps mrp)[index := (wrappedStart, wrapped')] \<rparr>;
                           p' = stored w p;
                           err' =
                             (if err = None \<and> n \<noteq> int (length p)
                              then Some (ShortWrappedRead index n (length p) wrappedOff)
                              else if err = Some EOF
                              then (if (word_of_int n :: int64) \<noteq> wrappedSize - wrappedOff
                                    then Some (UnexpectedWrappedEOF index n wrappedSize wrappedOff)
                                    else None)
                              else err)
                       in readFromOne_deferred n err' (length p) off wrappedStart wrappedSize
                            (mrp', p', n, err')))))"

text \<open>
  The loop of \<^verbatim>\<open>ReadAt\<close>. \<open>filled\<close> is the part of the caller's buffer that the slice
  \<open>p\<close> has already moved past; slicing beyond the end of \<open>p\<close> panics.
\<close>

function readLoop ::
  "('p, 'l) ReadProxy \<Rightarrow> ('p, 'r, 'f) multiReadProxy \<Rightarrow> int \<Rightarrow> byte list \<Rightarrow> byte list \<Rightarrow> int64 \<Rightarrow>
     nat \<Rightarrow> (('p, 'r, 'f) multiReadProxy \<times> byte list \<times> int \<times> error option) result" where
  "readLoop P mrp n filled p off wrappedIndex =
     (if length p > 0
      then
        (if wrappedIndex = length (mrp_rps mrp) then Return (mrp, filled @ p, n, Some EOF)
         else
           (case readFromOne P mrp wrappedIndex p off of
              Panic m \<Rightarrow> Panic m
            | Return (mrp', p', wrappedN, wrappedErr) \<Rightarrow>
                (case wrappedErr of
                   Some e \<Rightarrow> Return (mrp', filled @ p', n + wrappedN, Some e)
                 | None \<Rightarrow>
                     if wrappedN < 0 \<or> int (length p') < wrappedN
                     then Panic ''slice bounds out of range''
                     else readLoop P mrp' (n + wrappedN) (filled @ take (nat wrappedN) p')
                            (drop (nat wrappedN) p') (off + word_of_int wrappedN)
                            (wrappedIndex + 1))))
      else Return (mrp, filled @ p, n, None))"
  by pat_completeness auto
termination
  by (relation "measure (\<lambda>(P, mrp, n, filled, p, off, wrappedIndex).
                  length (mrp_rps mrp) - wrappedIndex)")
     (auto simp: readFromOne_def readFromOne_deferred_def Let_def
           split: if_splits prod.splits)

declare readLoop.simps [simp del]

text \<open>
  \<^verbatim>\<open>ReadAt\<close> below its first block: the special cases and the wrapped proxies. \<open>n\<close> is
  the named result as the first block left it.
\<close>

definition mrp_ReadAt_wrapped ::
  "('p, 'l) ReadProxy \<Rightarrow> ('p, 'r, 'f) multiReadProxy \<Rightarrow> int \<Rightarrow> byte list \<Rightarrow> int64 \<Rightarrow>
     (('p, 'r, 'f) multiReadProxy \<times> byte list \<times> int \<times> error option) result" where
  "mrp_ReadAt_wrapped P mrp n p off =
     (if word_sless off 0 then Return (mrp, p, n, Some (InvalidOffset off))
      else if \<not> word_sless off (mrp_Size mrp) then Return (mrp, p, n, Some EOF)
      else
        (let wrappedIndex = int (upperBound mrp off) - 1
         in if wrappedIndex < 0 \<or> wrappedIndex \<ge> int (length (mrp_rps mrp))
            then Panic ''Unexpected index''
            else readLoop P mrp n [] p off (nat wrappedIndex)))"

definition mrp_ReadAt ::
  "('p, 'l) ReadProxy \<Rightarrow> ('r, 'l) ReadLease \<Rightarrow> ('p, 'r, 'f) multiReadProxy \<Rightarrow> byte list \<Rightarrow> int64 \<Rightarrow>
     (('p, 'r, 'f) multiReadProxy \<times> byte list \<times> int \<times> error option) result" where
  "mrp_ReadAt P R mrp p off =
     (case mrp_lease mrp of
        None \<Rightarrow> mrp_ReadAt_wrapped P mrp 0 p off
      | Some l \<Rightarrow>
          (case rl_ReadAt R l (length p) off of
             (l', w, n, err) \<Rightarrow>
               (case err of
                  None \<Rightarrow> Return (mrp\<lparr> mrp_lease := Some l' \<rparr>, stored w p, n, None)
                | Some e \<Rightarrow>
                    if e = RevokedError
                    then mrp_ReadAt_wrapped P (mrp\<lparr> mrp_lease := None \<rparr>) n (stored w p) off
                    else Return (mrp\<lparr> mrp_lease := Some l' \<rparr>, stored w p, n, Some e))))"

text \<open>
  \<^verbatim>\<open>upgradeOne\<close> returns the destination lease and the wrapped proxy as it leaves them;
  the source lease is revoked by the deferred call and dropped.
\<close>

definition upgradeOne ::
  "('p, 'l) ReadProxy \<Rightarrow> 'l ReadWriteLease \<Rightarrow> 'l \<Rightarrow> 'p \<Rightarrow> 'l \<times> 'p \<times> error option" where
  "upgradeOne P L dst rp =
     (case rp_Upgrade P rp of
        (rp', Inl e) \<Rightarrow> (dst, rp', Some (Wrapped ''Upgrade'' e))
      | (rp', Inr src) \<Rightarrow>
          (case rwl_Seek L src 0 0 of
             (src1, _, Some e) \<Rightarrow> (dst, rp', Some (Wrapped ''Seek'' e))
           | (src1, _, None) \<Rightarrow>
               (case rwl_Copy L dst src1 of
                  (dst', src2, _, Some e) \<Rightarrow> (dst', rp', Some (Wrapped ''Copy'' e))
                | (dst', src2, _, None) \<Rightarrow> (dst', rp', None))))"

text \<open>The loop of \<^verbatim>\<open>Upgrade\<close> over the entries from index \<open>i\<close> on.\<close>

fun upgradeEach ::
  "('p, 'l) ReadProxy \<Rightarrow> 'l ReadWriteLease \<Rightarrow> (int64 \<times> 'p) list \<Rightarrow> nat \<Rightarrow> 'l \<Rightarrow>
     (int64 \<times> 'p) list \<times> 'l \<times> error option" where
  "upgradeEach P L [] i rwl = ([], rwl, None)"
| "upgradeEach P L (entry # rest) i rwl =
     (case upgradeOne P L rwl (snd entry) of
        (rwl', rp', Some e) \<Rightarrow> ((fst entry, rp') # rest, rwl', Some (WrappedAt ''upgradeOne'' i e))
      | (rwl', rp', None) \<Rightarrow>
          (case upgradeEach P L rest (i + 1) rwl' of
             (rest', rwl'', err) \<Rightarrow> ((fst entry, rp') # rest', rwl'', err)))"

text \<open>
  \<^verbatim>\<open>Upgrade\<close> below its first block. The deferred function revokes the new lease when
  the loop ends in error; the revoked handle is still the first result.
\<close>

definition mrp_Upgrade_wrapped ::
  "('p, 'l) ReadProxy \<Rightarrow> ('f, 'l) FileLeaser \<Rightarrow> 'l ReadWriteLease \<Rightarrow> ('p, 'r, 'f) multiReadProxy \<Rightarrow>
     ('p, 'r, 'f) multiReadProxy \<times> 'l option \<times> error option" where
  "mrp_Upgrade_wrapped P F L mrp =
     (case fl_NewFile F (mrp_leaser mrp) of
        (fl', Inl e) \<Rightarrow> (mrp\<lparr> mrp_leaser := fl' \<rparr>, None, Some (Wrapped ''NewFile'' e))
      | (fl', Inr rwl) \<Rightarrow>
          (case upgradeEach P L (mrp_rps mrp) 0 rwl of
             (rps', rwl', None) \<Rightarrow>
               (mrp\<lparr> mrp_leaser := fl', mrp_rps := rps' \<rparr>, Some rwl', None)
           | (rps', rwl', Some e) \<Rightarrow>
               (mrp\<lparr> mrp_leaser := fl', mrp_rps := rps' \<rparr>, Some (rwl_Revoke L rwl'), Some e)))"

definition mrp_Upgrade ::
  "('p, 'l) ReadProxy \<Rightarrow> ('r, 'l) ReadLease \<Rightarrow> ('f, 'l) FileLeaser \<Rightarrow> 'l ReadWriteLease \<Rightarrow>
     ('p, 'r, 'f) multiReadProxy \<Rightarrow> ('p, 'r, 'f) multiReadProxy \<times> 'l option \<times> error option" where
  "mrp_Upgrade P R F L mrp =
     (let mrp0 = mrp\<lparr> mrp_destroyed := True \<rparr>
      in case mrp_lease mrp0 of
           None \<Rightarrow> mrp_Upgrade_wrapped P F L mrp0
         | Some l \<Rightarrow>
             (case rl_Upgrade R l of
                (l', Inr rwl) \<Rightarrow> (mrp0\<lparr> mrp_lease := Some l' \<rparr>, Some rwl, None)
              | (l', Inl e) \<Rightarrow>
                  if e = RevokedError
                  then mrp_Upgrade_wrapped P F L (mrp0\<lparr> mrp_lease := None \<rparr>)
                  else (mrp0\<lparr> mrp_lease := Some l' \<rparr>, None, Some e)))"

definition mrp_Destroy :: "('p, 'r, 'f) multiReadProxy \<Rightarrow> ('p, 'r, 'f) multiReadProxy" where
  "mrp_Destroy mrp = mrp\<lparr> mrp_rps := [], mrp_lease := None, mrp_destroyed := True \<rparr>"

definition mrp_CheckInvariants ::
  "('p, 'l) ReadProxy \<Rightarrow> ('r, 'l) ReadLease \<Rightarrow> ('p, 'r, 'f) multiReadProxy \<Rightarrow> unit result" where
  "mrp_CheckInvariants P R mrp =
     (if mrp_destroyed mrp then Panic ''Use after destroyed''
      else if length (mrp_rps mrp) \<noteq> 0 \<and> fst (mrp_rps mrp ! 0) \<noteq> 0
        then Panic ''Unexpected starting point''
      else if (\<exists>x \<in> set (mrp_rps mrp). word_sless (rp_Size P (snd x)) 0)
        then Panic ''Negative size''
      else if (\<exists>i \<in> set [0 ..< length (mrp_rps mrp)].
                 i > 0 \<and> \<not> (fst (mrp_rps mrp ! i) =
                    fst (mrp_rps mrp ! (i - 1)) + rp_Size P (snd (mrp_rps mrp ! (i - 1)))))
        then Panic ''Offsets are not indexed correctly.''
      else if fold (\<lambda>wrapped sum. sum + rp_Size P (snd wrapped)) (mrp_rps mrp) 0 \<noteq> mrp_size mrp
        then Panic ''Size mismatch''
      else if (case mrp_lease mrp of None \<Rightarrow> False | Some l \<Rightarrow> mrp_size mrp \<noteq> rl_Size R l)
        then Panic ''Size mismatch''
      else Return ())"

subsection \<open>The invariants written on the fields\<close>

text \<open>
  The \<^verbatim>\<open>INVARIANT\<close> comments on \<open>rps\<close> and \<open>lease\<close> that speak of offsets and sums:
  the first offset is zero, every later offset is the previous one plus the previous
  size, \<open>size\<close> is the sum of the wrapped sizes, and a lease has that size. Sums are sums
  of \<^verbatim>\<open>int64\<close> values.
\<close>

definition layoutInvariants ::
  "('p, 'l) ReadProxy \<Rightarrow> ('r, 'l) ReadLease \<Rightarrow> ('p, 'r, 'f) multiReadProxy \<Rightarrow> bool" where
  "layoutInvariants P R mrp =
     ((mrp_rps mrp \<noteq> [] \<longrightarrow> fst (mrp_rps mrp ! 0) = 0) \<and>
      (\<forall>i. 0 < i \<and> i < length (mrp_rps mrp) \<longrightarrow>
         fst (mrp_rps mrp ! i) =
           fst (mrp_rps mrp ! (i - 1)) + rp_Size P (snd (mrp_rps mrp ! (i - 1)))) \<and>
      mrp_size mrp = sum_list (map (\<lambda>x. rp_Size P (snd x)) (mrp_rps mrp)) \<and>
      (\<forall>l. mrp_lease mrp = Some l \<longrightarrow> rl_Size R l = mrp_size mrp))"

text \<open>The size of a read lease does not change when it is read.\<close>

definition leaseSize_constant :: "('r, 'l) ReadLease \<Rightarrow> bool" where
  "leaseSize_constant R =
     (\<forall>r len off. rl_Size R (fst (rl_ReadAt R r len off)) = rl_Size R r)"

text \<open>Entries laid end to end from the offset \<open>s\<close> on.\<close>

fun chained :: "('p, 'l) ReadProxy \<Rightarrow> int64 \<Rightarrow> (int64 \<times> 'p) list \<Rightarrow> bool" where
  "chained P s [] = True"
| "chained P s (x # xs) = (fst x = s \<and> chained P (s + rp_Size P (snd x)) xs)"

section \<open>Implementations behind the interfaces\<close>

text \<open>
  Modelled from the spec: the scratch file behind a lease. The leaser and its leases
  are not among the source files. A scratch file is a byte sequence with a file
  position; a positional read returns up to the buffer's length from the offset and
  reports \<^verbatim>\<open>EOF\<close> on a short read; a positional write may start beyond the end, the gap
  being filled with NULs, and a write of no bytes changes nothing; truncation cuts or
  extends with NULs.
\<close>

record scratch =
  contents :: "byte list"
  position :: nat

definition pread :: "byte list \<Rightarrow> nat \<Rightarrow> int64 \<Rightarrow> byte list \<times> int \<times> error option" where
  "pread f len off =
     (if word_sless off 0 then ([], 0, Some (OtherError ''negative offset''))
      else (let w = take len (drop (nat (sint off)) f)
            in (w, int (length w), if length w < len then Some EOF else None)))"

definition pwrite :: "byte list \<Rightarrow> byte list \<Rightarrow> nat \<Rightarrow> byte list" where
  "pwrite f buf k =
     (if buf = [] then f
      else take k f @ replicate (k - length f) 0 @ buf @ drop (k + length buf) f)"

definition scratch_WriteAt :: "scratch \<Rightarrow> byte list \<Rightarrow> int64 \<Rightarrow> scratch \<times> int \<times> error option" where
  "scratch_WriteAt l buf off =
     (if word_sless off 0 then (l, 0, Some (OtherError ''negative offset''))
      else if sint MaxInt64 < sint off + int (length buf)
        then (l, 0, Some (OtherError ''file too large''))
      else (l\<lparr> contents := pwrite (contents l) buf (nat (sint off)) \<rparr>, int (length buf), None))"

definition scratch_Truncate :: "scratch \<Rightarrow> int64 \<Rightarrow> scratch \<times> error option" where
  "scratch_Truncate l n =
     (if word_sless n 0 then (l, Some (OtherError ''invalid argument''))
      else (l\<lparr> contents := take (nat (sint n)) (contents l)
                              @ replicate (nat (sint n) - length (contents l)) 0 \<rparr>, None))"

definition scratch_Seek :: "scratch \<Rightarrow> int64 \<Rightarrow> int \<Rightarrow> scratch \<times> int64 \<times> error option" where
  "scratch_Seek l off whence =
     (let base = (if whence = 0 then 0
                  else if whence = 1 then int (position l)
                  else int (length (contents l)));
          target = base + sint off
      in if target < 0 then (l, 0, Some (OtherError ''invalid argument''))
         else (l\<lparr> position := nat target \<rparr>, word_of_int target, None))"

definition scratch_Copy :: "scratch \<Rightarrow> scratch \<Rightarrow> scratch \<times> scratch \<times> int64 \<times> error option" where
  "scratch_Copy dst src =
     (let bytes = drop (position src) (contents src)
      in (dst\<lparr> contents := pwrite (contents dst) bytes (position dst),
                position := position dst + length bytes \<rparr>,
          src\<lparr> position := max (position src) (length (contents src)) \<rparr>,
          word_of_nat (length bytes), None))"

definition scratchFile :: "scratch ReadWriteLease" where
  "scratchFile =
     \<lparr> rwl_ReadAt = (\<lambda>l len off. case pread (contents l) len off of (w, n, e) \<Rightarrow> (l, w, n, e)),
       rwl_WriteAt = scratch_WriteAt,
       rwl_Truncate = scratch_Truncate,
       rwl_Size = (\<lambda>l. (l, word_of_nat (length (contents l)), None)),
       rwl_Seek = scratch_Seek,
       rwl_Copy = scratch_Copy,
       rwl_Revoke = (\<lambda>l. l\<lparr> contents := [], position := 0 \<rparr>) \<rparr>"

text \<open>
  Modelled from the spec: a read lease on a scratch file. Its size never changes; once
  revoked every read and the upgrade fail with the revocation error; a successful
  upgrade hands the file over and leaves the handle revoked.
\<close>

record leased =
  leased_bytes :: "byte list"
  revoked :: bool

definition leasedFile :: "(leased, scratch) ReadLease" where
  "leasedFile =
     \<lparr> rl_Size = (\<lambda>r. word_of_nat (length (leased_bytes r))),
       rl_ReadAt = (\<lambda>r len off.
          if revoked r then (r, [], 0, Some RevokedError)
          else (case pread (leased_bytes r) len off of (w, n, e) \<Rightarrow> (r, w, n, e))),
       rl_Upgrade = (\<lambda>r.
          if revoked r then (r, Inl RevokedError)
          else (r\<lparr> revoked := True \<rparr>, Inr \<lparr> contents = leased_bytes r, position = 0 \<rparr>)) \<rparr>"

text \<open>
  Modelled from the spec: the leaser hands out an empty read/write lease, or fails when
  the backing file cannot be created (the state says whether the directory is usable).
\<close>

definition scratchDir :: "(bool, scratch) FileLeaser" where
  "scratchDir =
     \<lparr> fl_NewFile = (\<lambda>usable.
          if usable then (usable, Inr \<lparr> contents = [], position = 0 \<rparr>)
          else (usable, Inl (OtherError ''scratch I/O''))) \<rparr>"

text \<open>
  Modelled from the spec: a single read proxy over a remote object of known size. Its
  size is constant; reads and the upgrade fetch the bytes, and a fetch fails while the
  remote cannot be reached (the state counts the fetches that will still fail).
\<close>

record remote =
  remote_bytes :: "byte list"
  outages :: nat

definition remoteProxy :: "(remote, scratch) ReadProxy" where
  "remoteProxy =
     \<lparr> rp_Size = (\<lambda>p. word_of_nat (length (remote_bytes p))),
       rp_ReadAt = (\<lambda>p len off.
          if 0 < outages p then (p\<lparr> outages := outages p - 1 \<rparr>, [], 0, Some (OtherError ''remote I/O''))
          else (case pread (remote_bytes p) len off of (w, n, e) \<Rightarrow> (p, w, n, e))),
       rp_Upgrade = (\<lambda>p.
          if 0 < outages p then (p\<lparr> outages := outages p - 1 \<rparr>, Inl (OtherError ''remote I/O''))
          else (p, Inr \<lparr> contents = remote_bytes p, position = 0 \<rparr>)),
       rp_CheckInvariants = (\<lambda>p. True) \<rparr>"

section \<open>Properties of the mutable content\<close>

subsection \<open>Auxiliary facts\<close>

lemma minInt64_sle_left: "word_sle (minInt64 a b) a"
  by (simp add: minInt64_def word_sle_eq word_sless_alt)

lemma minInt64_signed_min: "sint (minInt64 a b) = min (sint a) (sint b)"
  by (simp add: minInt64_def word_sless_alt min_def)

lemma not_above_MaxInt64: "\<not> word_sless MaxInt64 n"
proof -
  have "sint n < 2 ^ (LENGTH(64) - 1)" by (rule sint_lt)
  moreover have "sint MaxInt64 = 2 ^ 63 - 1" by (simp add: MaxInt64_def)
  ultimately show ?thesis by (simp add: word_sless_alt)
qed

lemma sle_refl: "word_sle (a::int64) a"
  by (simp add: word_sle_eq)

lemma sle_trans: "word_sle (a::int64) b \<Longrightarrow> word_sle b c \<Longrightarrow> word_sle a c"
  by (simp add: word_sle_eq)

text \<open>The ways in which each method returns.\<close>

lemma ensureReadWriteLease_cases:
  assumes "ensureReadWriteLease P mc = Return (mc1, e)"
  obtains
    (held) "readWriteLease mc \<noteq> None" "mc1 = mc" "e = None"
  | (failed) p p' e0 where "readWriteLease mc = None" "initialContent mc = Some p"
      "rp_Upgrade P p = (p', Inl e0)" "mc1 = mc\<lparr> initialContent := Some p' \<rparr>"
      "e = Some (Wrapped ''initialContent.Upgrade'' e0)"
  | (upgraded) p p' l where "readWriteLease mc = None" "initialContent mc = Some p"
      "rp_Upgrade P p = (p', Inr l)"
      "mc1 = mc\<lparr> readWriteLease := Some l, initialContent := None \<rparr>" "e = None"
  using assms
  by (auto simp: ensureReadWriteLease_def split: if_splits option.splits prod.splits sum.splits)

lemma mc_WriteAt_cases:
  assumes "mc_WriteAt P L now mc buf off = Return (mc', n, err)"
  obtains
    (refused) mc1 e where "ensureReadWriteLease P mc = Return (mc1, Some e)" "mc' = mc1"
      "n = 0" "err = Some (Wrapped ''ensureReadWriteLease'' e)"
  | (forwarded) mc1 l l' where "ensureReadWriteLease P mc = Return (mc1, None)"
      "readWriteLease mc1 = Some l" "rwl_WriteAt L l buf off = (l', n, err)"
      "mc' = mc1\<lparr> dirtyThreshold := minInt64 (dirtyThreshold mc1) off, mtime := Some now,
                    readWriteLease := Some l' \<rparr>"
  using assms unfolding mc_WriteAt_def
  by (auto simp: Let_def split: result.splits option.splits prod.splits)

lemma mc_Truncate_cases:
  assumes "mc_Truncate P L now mc k = Return (mc', err)"
  obtains
    (refused) mc1 e where "ensureReadWriteLease P mc = Return (mc1, Some e)" "mc' = mc1"
      "err = Some (Wrapped ''ensureReadWriteLease'' e)"
  | (forwarded) mc1 l l' where "ensureReadWriteLease P mc = Return (mc1, None)"
      "readWriteLease mc1 = Some l" "rwl_Truncate L l k = (l', err)"
      "mc' = mc1\<lparr> dirtyThreshold := minInt64 (dirtyThreshold mc1) k, mtime := Some now,
                    readWriteLease := Some l' \<rparr>"
  using assms unfolding mc_Truncate_def
  by (auto simp: Let_def not_above_MaxInt64 split: result.splits option.splits prod.splits)

lemma mc_ReadAt_cases:
  assumes "mc_ReadAt P L mc buf off = Return (mc', buf', n, err)"
  obtains
    (lease) l l' w where "readWriteLease mc = Some l"
      "rwl_ReadAt L l (length buf) off = (l', w, n, err)"
      "mc' = mc\<lparr> readWriteLease := Some l' \<rparr>" "buf' = stored w buf"
  | (proxy) p p' w where "readWriteLease mc = None" "initialContent mc = Some p"
      "rp_ReadAt P p (length buf) off = (p', w, n, err)"
      "mc' = mc\<lparr> initialContent := Some p' \<rparr>" "buf' = stored w buf"
  using assms unfolding mc_ReadAt_def
  by (auto split: option.splits prod.splits)

lemma mc_Stat_cases:
  assumes "mc_Stat P L mc = Return (mc', sr, err)"
  obtains
    (lease) l l' sz where "readWriteLease mc = Some l" "rwl_Size L l = (l', sz, err)"
      "mc' = mc\<lparr> readWriteLease := Some l' \<rparr>"
      "sr = \<lparr> Size = sz, DirtyThreshold = dirtyThreshold mc, Mtime = mtime mc \<rparr>"
  | (proxy) p where "readWriteLease mc = None" "initialContent mc = Some p" "mc' = mc"
      "sr = \<lparr> Size = rp_Size P p, DirtyThreshold = dirtyThreshold mc, Mtime = mtime mc \<rparr>"
      "err = None"
  using assms unfolding mc_Stat_def
  by (auto split: option.splits prod.splits)

lemma perform_cases:
  assumes "perform P L mc c = Return mc'"
  obtains
    (reading) buf off buf' n err where "c = CallReadAt buf off"
      "mc_ReadAt P L mc buf off = Return (mc', buf', n, err)"
  | (stat) sr err where "c = CallStat" "mc_Stat P L mc = Return (mc', sr, err)"
  | (writing) now buf off n err where "c = CallWriteAt now buf off"
      "mc_WriteAt P L now mc buf off = Return (mc', n, err)"
  | (truncating) now k err where "c = CallTruncate now k"
      "mc_Truncate P L now mc k = Return (mc', err)"
  using assms by (cases c) (auto split: result.splits)

lemma performAll_induct:
  assumes run: "performAll P L mc cs = Return mc'"
    and base: "Q mc"
    and step: "\<And>m c m'. Q m \<Longrightarrow> perform P L m c = Return m' \<Longrightarrow> Q m'"
  shows "Q mc'"
  using run base
proof (induction cs arbitrary: mc)
  case Nil
  then show ?case by simp
next
  case (Cons c cs)
  from Cons.prems(1) obtain m1 where s: "perform P L mc c = Return m1"
    and r: "performAll P L m1 cs = Return mc'"
    by (auto split: result.splits)
  from step[OF Cons.prems(2) s] have "Q m1" .
  with r show ?case by (rule Cons.IH)
qed

subsection \<open>The dirty threshold\<close>

lemma mc_WriteAt_threshold:
  assumes "mc_WriteAt P L now mc buf off = Return (mc', n, err)"
  shows "dirtyThreshold mc' =
           (if dirty mc' then minInt64 (dirtyThreshold mc) off else dirtyThreshold mc)"
  using assms
proof (cases rule: mc_WriteAt_cases)
  case (refused mc1 e)
  from refused(1) show ?thesis
    by (cases rule: ensureReadWriteLease_cases) (simp_all add: refused dirty_def)
next
  case (forwarded mc1 l l')
  from forwarded(1) show ?thesis
    by (cases rule: ensureReadWriteLease_cases) (simp_all add: forwarded dirty_def)
qed

lemma mc_Truncate_threshold:
  assumes "mc_Truncate P L now mc k = Return (mc', err)"
  shows "dirtyThreshold mc' =
           (if dirty mc' then minInt64 (dirtyThreshold mc) k else dirtyThreshold mc)"
  using assms
proof (cases rule: mc_Truncate_cases)
  case (refused mc1 e)
  from refused(1) show ?thesis
    by (cases rule: ensureReadWriteLease_cases) (simp_all add: refused dirty_def)
next
  case (forwarded mc1 l l')
  from forwarded(1) show ?thesis
    by (cases rule: ensureReadWriteLease_cases) (simp_all add: forwarded dirty_def)
qed

lemma perform_threshold:
  assumes "perform P L mc c = Return mc'"
  shows "word_sle (dirtyThreshold mc') (dirtyThreshold mc)"
  using assms
proof (cases rule: perform_cases)
  case (reading buf off buf' n err)
  from reading(2) show ?thesis by (cases rule: mc_ReadAt_cases) (simp_all add: sle_refl)
next
  case (stat sr err)
  from stat(2) show ?thesis by (cases rule: mc_Stat_cases) (simp_all add: sle_refl)
next
  case (writing now buf off n err)
  from mc_WriteAt_threshold[OF writing(2)] show ?thesis
    by (simp add: sle_refl minInt64_sle_left split: if_splits)
next
  case (truncating now k err)
  from mc_Truncate_threshold[OF truncating(2)] show ?thesis
    by (simp add: sle_refl minInt64_sle_left split: if_splits)
qed

text \<open>Whether the call will have a read/write lease: one is held, or the proxy upgrades.\<close>

lemma ensureReadWriteLease_succeeds:
  assumes "readWriteLease mc \<noteq> None \<or>
           (\<exists>p p' l. initialContent mc = Some p \<and> rp_Upgrade P p = (p', Inr l))"
  shows "\<exists>mc1 l. ensureReadWriteLease P mc = Return (mc1, None) \<and> readWriteLease mc1 = Some l \<and>
           dirtyThreshold mc1 = dirtyThreshold mc"
  using assms by (auto simp: ensureReadWriteLease_def)

lemma mc_WriteAt_lowers:
  assumes "readWriteLease mc \<noteq> None \<or>
           (\<exists>p p' l. initialContent mc = Some p \<and> rp_Upgrade P p = (p', Inr l))"
  shows "\<exists>mc' n err. mc_WriteAt P L now mc buf off = Return (mc', n, err) \<and> dirty mc' \<and>
           dirtyThreshold mc' = minInt64 (dirtyThreshold mc) off"
proof -
  from ensureReadWriteLease_succeeds[OF assms] obtain mc1 l
    where ens: "ensureReadWriteLease P mc = Return (mc1, None)"
      and l: "readWriteLease mc1 = Some l" and dt: "dirtyThreshold mc1 = dirtyThreshold mc"
    by blast
  obtain l' n err where "rwl_WriteAt L l buf off = (l', n, err)"
    by (cases "rwl_WriteAt L l buf off") auto
  with ens l dt show ?thesis
    by (simp add: mc_WriteAt_def Let_def dirty_def)
qed

lemma mc_Truncate_lowers:
  assumes "readWriteLease mc \<noteq> None \<or>
           (\<exists>p p' l. initialContent mc = Some p \<and> rp_Upgrade P p = (p', Inr l))"
  shows "\<exists>mc' err. mc_Truncate P L now mc k = Return (mc', err) \<and> dirty mc' \<and>
           dirtyThreshold mc' = minInt64 (dirtyThreshold mc) k"
proof -
  from ensureReadWriteLease_succeeds[OF assms] obtain mc1 l
    where ens: "ensureReadWriteLease P mc = Return (mc1, None)"
      and l: "readWriteLease mc1 = Some l" and dt: "dirtyThreshold mc1 = dirtyThreshold mc"
    by blast
  obtain l' err where "rwl_Truncate L l k = (l', err)"
    by (cases "rwl_Truncate L l k") auto
  with ens l dt show ?thesis
    by (simp add: mc_Truncate_def Let_def dirty_def not_above_MaxInt64)
qed

lemma refused_keeps_threshold:
  assumes "readWriteLease mc = None" and "initialContent mc = Some p"
    and "rp_Upgrade P p = (p', Inl e)"
  shows "(\<exists>mc' n err. mc_WriteAt P L now mc buf off = Return (mc', n, err) \<and> \<not> dirty mc' \<and>
            dirtyThreshold mc' = dirtyThreshold mc) \<and>
         (\<exists>mc' err. mc_Truncate P L now mc k = Return (mc', err) \<and> \<not> dirty mc' \<and>
            dirtyThreshold mc' = dirtyThreshold mc)"
  using assms
  by (simp add: mc_WriteAt_def mc_Truncate_def ensureReadWriteLease_def dirty_def)

text \<open>
  C1. When the content holds a read/write lease, or holds none and its proxy upgrades,
  \<^verbatim>\<open>WriteAt\<close> at \<open>off\<close> returns and leaves the content dirty with the dirty threshold at
  \<open>minInt64\<close> of its previous value and \<open>off\<close>, and \<^verbatim>\<open>Truncate\<close> to \<open>k\<close> likewise with \<open>k\<close>;
  \<open>minInt64\<close> is the minimum of the two signed values, so the new threshold is that
  minimum and is at most the previous one. When the proxy fails to upgrade, both calls
  return and leave the threshold as it was. Whatever a returning call did, its
  threshold is one of these two. Over any sequence of calls the threshold at the end is
  at most the threshold at the start.
\<close>

theorem dirtyThreshold_non_increasing:
  "((readWriteLease mc \<noteq> None \<or>
      (\<exists>p p' l. initialContent mc = Some p \<and> rp_Upgrade P p = (p', Inr l))) \<longrightarrow>
      (\<exists>mc' n err. mc_WriteAt P L now mc buf off = Return (mc', n, err) \<and> dirty mc' \<and>
         dirtyThreshold mc' = minInt64 (dirtyThreshold mc) off \<and>
         sint (dirtyThreshold mc') = min (sint (dirtyThreshold mc)) (sint off) \<and>
         sint (dirtyThreshold mc') \<le> sint (dirtyThreshold mc)) \<and>
      (\<exists>mc' err. mc_Truncate P L now mc k = Return (mc', err) \<and> dirty mc' \<and>
         dirtyThreshold mc' = minInt64 (dirtyThreshold mc) k \<and>
         sint (dirtyThreshold mc') = min (sint (dirtyThreshold mc)) (sint k) \<and>
         sint (dirtyThreshold mc') \<le> sint (dirtyThreshold mc))) \<and>
   (\<forall>p p' e. readWriteLease mc = None \<and> initialContent mc = Some p \<and>
        rp_Upgrade P p = (p', Inl e) \<longrightarrow>
      (\<exists>mc' n err. mc_WriteAt P L now mc buf off = Return (mc', n, err) \<and> \<not> dirty mc' \<and>
         dirtyThreshold mc' = dirtyThreshold mc) \<and>
      (\<exists>mc' err. mc_Truncate P L now mc k = Return (mc', err) \<and> \<not> dirty mc' \<and>
         dirtyThreshold mc' = dirtyThreshold mc)) \<and>
   (\<forall>mc' n err. mc_WriteAt P L now mc buf off = Return (mc', n, err) \<longrightarrow>
      dirtyThreshold mc' =
        (if dirty mc' then minInt64 (dirtyThreshold mc) off else dirtyThreshold mc)) \<and>
   (\<forall>mc' err. mc_Truncate P L now mc k = Return (mc', err) \<longrightarrow>
      dirtyThreshold mc' =
        (if dirty mc' then minInt64 (dirtyThreshold mc) k else dirtyThreshold mc)) \<and>
   (\<forall>a b. sint (minInt64 a b) = min (sint a) (sint b)) \<and>
   (\<forall>mc'. performAll P L mc cs = Return mc' \<longrightarrow>
      sint (dirtyThreshold mc') \<le> sint (dirtyThreshold mc))"
proof (intro conjI allI impI)
  assume pre: "readWriteLease mc \<noteq> None \<or>
      (\<exists>p p' l. initialContent mc = Some p \<and> rp_Upgrade P p = (p', Inr l))"
  from mc_WriteAt_lowers[OF pre, of L now buf off]
  show "\<exists>mc' n err. mc_WriteAt P L now mc buf off = Return (mc', n, err) \<and> dirty mc' \<and>
         dirtyThreshold mc' = minInt64 (dirtyThreshold mc) off \<and>
         sint (dirtyThreshold mc') = min (sint (dirtyThreshold mc)) (sint off) \<and>
         sint (dirtyThreshold mc') \<le> sint (dirtyThreshold mc)"
    by (auto simp: minInt64_signed_min)
  from mc_Truncate_lowers[OF pre, of L now k]
  show "\<exists>mc' err. mc_Truncate P L now mc k = Return (mc', err) \<and> dirty mc' \<and>
         dirtyThreshold mc' = minInt64 (dirtyThreshold mc) k \<and>
         sint (dirtyThreshold mc') = min (sint (dirtyThreshold mc)) (sint k) \<and>
         sint (dirtyThreshold mc') \<le> sint (dirtyThreshold mc)"
    by (auto simp: minInt64_signed_min)
next
  fix p p' e
  assume pre: "readWriteLease mc = None \<and> initialContent mc = Some p \<and>
      rp_Upgrade P p = (p', Inl e)"
  then have a: "readWriteLease mc = None" and b: "initialContent mc = Some p"
    and c: "rp_Upgrade P p = (p', Inl e)" by simp_all
  from refused_keeps_threshold[OF a b c, of L now buf off k]
  show "\<exists>mc' n err. mc_WriteAt P L now mc buf off = Return (mc', n, err) \<and> \<not> dirty mc' \<and>
         dirtyThreshold mc' = dirtyThreshold mc"
    and "\<exists>mc' err. mc_Truncate P L now mc k = Return (mc', err) \<and> \<not> dirty mc' \<and>
         dirtyThreshold mc' = dirtyThreshold mc"
    by blast+
next
  fix mc' n err
  assume "mc_WriteAt P L now mc buf off = Return (mc', n, err)"
  then show "dirtyThreshold mc' =
      (if dirty mc' then minInt64 (dirtyThreshold mc) off else dirtyThreshold mc)"
    by (rule mc_WriteAt_threshold)
next
  fix mc' err
  assume "mc_Truncate P L now mc k = Return (mc', err)"
  then show "dirtyThreshold mc' =
      (if dirty mc' then minInt64 (dirtyThreshold mc) k else dirtyThreshold mc)"
    by (rule mc_Truncate_threshold)
next
  fix a b :: int64
  show "sint (minInt64 a b) = min (sint a) (sint b)" by (rule minInt64_signed_min)
next
  fix mc'
  assume run: "performAll P L mc cs = Return mc'"
  have "word_sle (dirtyThreshold mc') (dirtyThreshold mc)"
  proof (rule performAll_induct[OF run, where Q = "\<lambda>m. word_sle (dirtyThreshold m) (dirtyThreshold mc)"])
    show "word_sle (dirtyThreshold mc) (dirtyThreshold mc)" by (rule sle_refl)
  next
    fix m c m'
    assume "word_sle (dirtyThreshold m) (dirtyThreshold mc)" and "perform P L m c = Return m'"
    then show "word_sle (dirtyThreshold m') (dirtyThreshold mc)"
      using perform_threshold sle_trans by blast
  qed
  then show "sint (dirtyThreshold mc') \<le> sint (dirtyThreshold mc)"
    by (simp add: word_sle_eq)
qed

theorem dirtyThreshold_non_increasing_witness:
  "initialContent (NewContent remoteProxy \<lparr> remote_bytes = [1, 2, 3, 4], outages = 0 \<rparr>) =
     Some \<lparr> remote_bytes = [1, 2, 3, 4], outages = 0 \<rparr> \<and>
   rp_Upgrade remoteProxy \<lparr> remote_bytes = [1, 2, 3, 4], outages = 0 \<rparr> =
     (\<lparr> remote_bytes = [1, 2, 3, 4], outages = 0 \<rparr>,
      Inr \<lparr> contents = [1, 2, 3, 4], position = 0 \<rparr>) \<and>
   dirtyThreshold (NewContent remoteProxy \<lparr> remote_bytes = [1, 2, 3, 4], outages = 0 \<rparr>) = 4 \<and>
   mc_WriteAt remoteProxy scratchFile 5
     (NewContent remoteProxy \<lparr> remote_bytes = [1, 2, 3, 4], outages = 0 \<rparr>) [9] 2 =
     Return (\<lparr> destroyed = False, initialContent = None,
               readWriteLease = Some \<lparr> contents = [1, 2, 9, 4], position = 0 \<rparr>,
               dirtyThreshold = 2, mtime = Some 5 \<rparr>, 1, None) \<and>
   sint (2 :: int64) = min (sint (4 :: int64)) (sint (2 :: int64)) \<and>
   mc_WriteAt remoteProxy scratchFile 6
     \<lparr> destroyed = False, initialContent = None,
       readWriteLease = Some \<lparr> contents = [1, 2, 9, 4], position = 0 \<rparr>,
       dirtyThreshold = 2, mtime = Some 5 \<rparr> [8] 3 =
     Return (\<lparr> destroyed = False, initialContent = None,
               readWriteLease = Some \<lparr> contents = [1, 2, 9, 8], position = 0 \<rparr>,
               dirtyThreshold = 2, mtime = Some 6 \<rparr>, 1, None) \<and>
   sint (2 :: int64) = min (sint (2 :: int64)) (sint (3 :: int64)) \<and>
   mc_Truncate remoteProxy scratchFile 7
     \<lparr> destroyed = False, initialContent = None,
       readWriteLease = Some \<lparr> contents = [1, 2, 9, 8], position = 0 \<rparr>,
       dirtyThreshold = 2, mtime = Some 6 \<rparr> 1 =
     Return (\<lparr> destroyed = False, initialContent = None,
               readWriteLease = Some \<lparr> contents = [1], position = 0 \<rparr>,
               dirtyThreshold = 1, mtime = Some 7 \<rparr>, None) \<and>
   mc_WriteAt remoteProxy scratchFile 5
     (NewContent remoteProxy \<lparr> remote_bytes = [1, 2, 3, 4], outages = 1 \<rparr>) [9] 2 =
     Return (NewContent remoteProxy \<lparr> remote_bytes = [1, 2, 3, 4], outages = 0 \<rparr>, 0,
             Some (Wrapped ''ensureReadWriteLease''
                    (Wrapped ''initialContent.Upgrade'' (OtherError ''remote I/O'')))) \<and>
   performAll remoteProxy scratchFile
     (NewContent remoteProxy \<lparr> remote_bytes = [1, 2, 3, 4], outages = 0 \<rparr>)
     [CallWriteAt 5 [9] 2, CallWriteAt 6 [8] 3, CallTruncate 7 1]
   = Return \<lparr> destroyed = False, initialContent = None,
              readWriteLease = Some \<lparr> contents = [1], position = 0 \<rparr>,
              dirtyThreshold = 1, mtime = Some 7 \<rparr> \<and>
   sint (1 :: int64) \<le> sint (4 :: int64)"
proof -
  let ?p = "\<lparr> remote_bytes = [1, 2, 3, 4], outages = 0 \<rparr>"
  let ?mc = "NewContent remoteProxy ?p"
  let ?A = "\<lparr> destroyed = False, initialContent = (None :: remote option),
               readWriteLease = Some \<lparr> contents = [1, 2, 9, 4], position = 0 \<rparr>,
               dirtyThreshold = 2, mtime = Some 5 \<rparr>"
  let ?B = "\<lparr> destroyed = False, initialContent = (None :: remote option),
               readWriteLease = Some \<lparr> contents = [1, 2, 9, 8], position = 0 \<rparr>,
               dirtyThreshold = 2, mtime = Some 6 \<rparr>"
  let ?C = "\<lparr> destroyed = False, initialContent = (None :: remote option),
               readWriteLease = Some \<lparr> contents = [1], position = 0 \<rparr>,
               dirtyThreshold = 1, mtime = Some 7 \<rparr>"
  let ?cs = "[CallWriteAt 5 [9] 2, CallWriteAt 6 [8] 3, CallTruncate 7 1]"
  note defs = NewContent_def remoteProxy_def scratchFile_def mc_WriteAt_def mc_Truncate_def
      ensureReadWriteLease_def minInt64_def scratch_WriteAt_def scratch_Truncate_def pwrite_def
      MaxInt64_def word_sless_alt
  have ini: "initialContent ?mc = Some ?p" and dt0: "dirtyThreshold ?mc = 4"
    by (simp_all add: NewContent_def remoteProxy_def)
  have up: "rp_Upgrade remoteProxy ?p = (?p, Inr \<lparr> contents = [1, 2, 3, 4], position = 0 \<rparr>)"
    by (simp add: remoteProxy_def)
  have w1: "mc_WriteAt remoteProxy scratchFile 5 ?mc [9] 2 = Return (?A, 1, None)"
    by (simp add: defs)
  have w2: "mc_WriteAt remoteProxy scratchFile 6 ?A [8] 3 = Return (?B, 1, None)"
    by (simp add: defs)
  have t3: "mc_Truncate remoteProxy scratchFile 7 ?B 1 = Return (?C, None)"
    by (simp add: defs)
  have w0: "mc_WriteAt remoteProxy scratchFile 5
      (NewContent remoteProxy \<lparr> remote_bytes = [1, 2, 3, 4], outages = 1 \<rparr>) [9] 2 =
      Return (?mc, 0, Some (Wrapped ''ensureReadWriteLease''
                    (Wrapped ''initialContent.Upgrade'' (OtherError ''remote I/O''))))"
    by (simp add: defs)
  have run: "performAll remoteProxy scratchFile ?mc ?cs = Return ?C"
    by (simp add: w1 w2 t3)
  have pre1: "readWriteLease ?mc \<noteq> None \<or>
      (\<exists>p p' l. initialContent ?mc = Some p \<and> rp_Upgrade remoteProxy p = (p', Inr l))"
    using ini up by blast
  have pre2: "readWriteLease ?A \<noteq> None \<or>
      (\<exists>p p' l. initialContent ?A = Some p \<and> rp_Upgrade remoteProxy p = (p', Inr l))"
    by simp
  note T1 = dirtyThreshold_non_increasing[of ?mc remoteProxy scratchFile 5 "[9]" 2 0 ?cs]
  note T2 = dirtyThreshold_non_increasing[of ?A remoteProxy scratchFile 6 "[8]" 3 0 "[]"]
  from T1 pre1 w1 dt0 have m1: "sint (2 :: int64) = min (sint (4 :: int64)) (sint (2 :: int64))"
    by auto
  from T2 pre2 w2 have m2: "sint (2 :: int64) = min (sint (2 :: int64)) (sint (3 :: int64))"
    by auto
  from T1 run dt0 have le: "sint (1 :: int64) \<le> sint (4 :: int64)"
    by auto
  from ini up dt0 w1 m1 w2 m2 t3 w0 run le show ?thesis by blast
qed

subsection \<open>The field invariants\<close>

lemma mc_CheckInvariants_iff:
  "mc_CheckInvariants P mc = Return () \<longleftrightarrow>
     \<not> destroyed mc \<and> (\<forall>p. initialContent mc = Some p \<longrightarrow> rp_CheckInvariants P p) \<and>
     fieldInvariants P mc"
  by (auto simp: mc_CheckInvariants_def fieldInvariants_def dirty_def split: option.splits)

lemma fieldInvariants_NewContent: "fieldInvariants P (NewContent P p)"
  by (simp add: fieldInvariants_def NewContent_def dirty_def)

lemma Size_constant_ReadAt:
  "Size_constant P \<Longrightarrow> rp_ReadAt P p len off = (p', r) \<Longrightarrow> rp_Size P p' = rp_Size P p"
  unfolding Size_constant_def by (metis fst_conv)

lemma Size_constant_Upgrade:
  "Size_constant P \<Longrightarrow> rp_Upgrade P p = (p', r) \<Longrightarrow> rp_Size P p' = rp_Size P p"
  unfolding Size_constant_def by (metis fst_conv)

lemma ensureReadWriteLease_returns:
  assumes "fieldInvariants P mc"
  shows "\<exists>mc1 e. ensureReadWriteLease P mc = Return (mc1, e)"
proof (cases "readWriteLease mc")
  case (Some l)
  then show ?thesis by (simp add: ensureReadWriteLease_def)
next
  case None
  with assms obtain p where "initialContent mc = Some p"
    by (auto simp: fieldInvariants_def)
  with None show ?thesis
    by (cases "rp_Upgrade P p") (auto simp: ensureReadWriteLease_def split: sum.splits)
qed

lemma ensureReadWriteLease_lease:
  assumes "ensureReadWriteLease P mc = Return (mc1, None)" and "fieldInvariants P mc"
  shows "\<exists>l. readWriteLease mc1 = Some l"
  using assms(1)
  by (cases rule: ensureReadWriteLease_cases) auto

lemma perform_returns:
  assumes inv: "fieldInvariants P mc"
  shows "\<exists>mc'. perform P L mc c = Return mc'"
proof -
  from ensureReadWriteLease_returns[OF inv] obtain mc1 e
    where ens: "ensureReadWriteLease P mc = Return (mc1, e)" by blast
  have lease: "e = None \<Longrightarrow> \<exists>l. readWriteLease mc1 = Some l"
    using ens inv ensureReadWriteLease_lease by blast
  from inv have one: "readWriteLease mc \<noteq> None \<or> initialContent mc \<noteq> None"
    by (auto simp: fieldInvariants_def)
  show ?thesis
  proof (cases c)
    case (CallReadAt buf off)
    with one show ?thesis
      by (auto simp: mc_ReadAt_def split: option.splits prod.splits)
  next
    case CallStat
    with one show ?thesis
      by (auto simp: mc_Stat_def split: option.splits prod.splits)
  next
    case (CallWriteAt now buf off)
    with ens lease show ?thesis
      by (cases e) (auto simp: mc_WriteAt_def Let_def split: option.splits prod.splits)
  next
    case (CallTruncate now k)
    with ens lease show ?thesis
      by (cases e)
         (auto simp: mc_Truncate_def Let_def not_above_MaxInt64 split: option.splits prod.splits)
  qed
qed

lemma ensureReadWriteLease_invariants:
  assumes sc: "Size_constant P" and inv: "fieldInvariants P mc"
    and ens: "ensureReadWriteLease P mc = Return (mc1, e)"
  shows "destroyed mc1 = destroyed mc \<and>
         (e \<noteq> None \<longrightarrow> fieldInvariants P mc1) \<and>
         (e = None \<longrightarrow> initialContent mc1 = None \<and> readWriteLease mc1 \<noteq> None)"
  using ens
proof (cases rule: ensureReadWriteLease_cases)
  case held
  with inv show ?thesis by (auto simp: fieldInvariants_def)
next
  case (failed p p' e0)
  from Size_constant_Upgrade[OF sc failed(3)] have "rp_Size P p' = rp_Size P p" .
  with inv failed show ?thesis by (auto simp: fieldInvariants_def dirty_def)
next
  case (upgraded p p' l)
  then show ?thesis by simp
qed

lemma perform_invariants:
  assumes sc: "Size_constant P" and inv: "fieldInvariants P mc"
    and step: "perform P L mc c = Return mc'"
  shows "destroyed mc' = destroyed mc \<and> fieldInvariants P mc'"
  using step
proof (cases rule: perform_cases)
  case (reading buf off buf' n err)
  from reading(2) show ?thesis
  proof (cases rule: mc_ReadAt_cases)
    case (lease l l' w)
    with inv show ?thesis by (auto simp: fieldInvariants_def dirty_def)
  next
    case (proxy p p' w)
    from Size_constant_ReadAt[OF sc proxy(3)] have "rp_Size P p' = rp_Size P p" .
    with inv proxy show ?thesis by (auto simp: fieldInvariants_def dirty_def)
  qed
next
  case (stat sr err)
  from stat(2) show ?thesis
  proof (cases rule: mc_Stat_cases)
    case (lease l l' sz)
    with inv show ?thesis by (auto simp: fieldInvariants_def dirty_def)
  next
    case (proxy p)
    with inv show ?thesis by simp
  qed
next
  case (writing now buf off n err)
  from writing(2) show ?thesis
  proof (cases rule: mc_WriteAt_cases)
    case (refused mc1 e)
    with ensureReadWriteLease_invariants[OF sc inv refused(1)] show ?thesis by simp
  next
    case (forwarded mc1 l l')
    with ensureReadWriteLease_invariants[OF sc inv forwarded(1)] show ?thesis
      by (simp add: fieldInvariants_def dirty_def)
  qed
next
  case (truncating now k err)
  from truncating(2) show ?thesis
  proof (cases rule: mc_Truncate_cases)
    case (refused mc1 e)
    with ensureReadWriteLease_invariants[OF sc inv refused(1)] show ?thesis by simp
  next
    case (forwarded mc1 l l')
    with ensureReadWriteLease_invariants[OF sc inv forwarded(1)] show ?thesis
      by (simp add: fieldInvariants_def dirty_def)
  qed
qed

lemma Size_constant_remoteProxy: "Size_constant remoteProxy"
  by (simp add: Size_constant_def remoteProxy_def split: prod.splits)

text \<open>
  C2. Provided the proxy's size is constant, the three field invariants (exactly one of
  \<open>initialContent\<close> and \<open>readWriteLease\<close> is set; a lease comes with an \<open>mtime\<close>; a
  proxy comes with \<open>dirtyThreshold\<close> equal to its size) hold of a new content that is
  not destroyed, and from a content that is not destroyed and satisfies them each of
  \<^verbatim>\<open>ReadAt\<close>, \<^verbatim>\<open>Stat\<close>, \<^verbatim>\<open>WriteAt\<close> and \<^verbatim>\<open>Truncate\<close> returns and leaves a content that
  is not destroyed and satisfies them.
\<close>

theorem fieldInvariants_preserved:
  assumes "Size_constant P"
  shows "\<not> destroyed (NewContent P p) \<and> fieldInvariants P (NewContent P p) \<and>
         (\<not> destroyed mc \<and> fieldInvariants P mc \<longrightarrow>
            (\<exists>mc'. perform P L mc c = Return mc' \<and> \<not> destroyed mc' \<and> fieldInvariants P mc'))"
proof (intro conjI impI)
  show "\<not> destroyed (NewContent P p)" by (simp add: NewContent_def)
  show "fieldInvariants P (NewContent P p)" by (rule fieldInvariants_NewContent)
next
  assume pre: "\<not> destroyed mc \<and> fieldInvariants P mc"
  then obtain mc' where step: "perform P L mc c = Return mc'"
    using perform_returns by blast
  from perform_invariants[OF assms _ step] pre
  have "\<not> destroyed mc' \<and> fieldInvariants P mc'" by simp
  with step show "\<exists>mc'. perform P L mc c = Return mc' \<and> \<not> destroyed mc' \<and> fieldInvariants P mc'"
    by blast
qed

theorem fieldInvariants_preserved_witness:
  "Size_constant remoteProxy \<and>
   fieldInvariants remoteProxy (NewContent remoteProxy \<lparr> remote_bytes = [1, 2, 3, 4], outages = 0 \<rparr>) \<and>
   (\<exists>mc'. perform remoteProxy scratchFile
             (NewContent remoteProxy \<lparr> remote_bytes = [1, 2, 3, 4], outages = 0 \<rparr>)
             (CallWriteAt 5 [9] 2) = Return mc' \<and>
           \<not> destroyed mc' \<and> fieldInvariants remoteProxy mc')"
  using fieldInvariants_preserved[OF Size_constant_remoteProxy,
      of "\<lparr> remote_bytes = [1, 2, 3, 4], outages = 0 \<rparr>"
         "NewContent remoteProxy \<lparr> remote_bytes = [1, 2, 3, 4], outages = 0 \<rparr>"
         scratchFile "CallWriteAt 5 [9] 2"]
    Size_constant_remoteProxy
  by simp

subsection \<open>A failed upgrade\<close>

text \<open>
  C3. On a clean content whose proxy fails to upgrade, \<^verbatim>\<open>WriteAt\<close> and \<^verbatim>\<open>Truncate\<close>
  return the (wrapped) error; the content still holds the proxy and no lease, and its
  flag, threshold and \<open>mtime\<close> are as before. The proxy object is in the state its own
  \<^verbatim>\<open>Upgrade\<close> left it in, and a later call upgrades that proxy again: when this
  succeeds the call goes through and the content is dirty.
\<close>

theorem failed_upgrade_leaves_clean:
  assumes "readWriteLease mc = None" and "initialContent mc = Some p"
    and "rp_Upgrade P p = (p', Inl e)"
  shows "mc_WriteAt P L now mc buf off =
           Return (mc\<lparr> initialContent := Some p' \<rparr>, 0,
                   Some (Wrapped ''ensureReadWriteLease'' (Wrapped ''initialContent.Upgrade'' e))) \<and>
         mc_Truncate P L now mc k =
           Return (mc\<lparr> initialContent := Some p' \<rparr>,
                   Some (Wrapped ''ensureReadWriteLease'' (Wrapped ''initialContent.Upgrade'' e))) \<and>
         \<not> dirty (mc\<lparr> initialContent := Some p' \<rparr>) \<and>
         dirtyThreshold (mc\<lparr> initialContent := Some p' \<rparr>) = dirtyThreshold mc \<and>
         mtime (mc\<lparr> initialContent := Some p' \<rparr>) = mtime mc \<and>
         destroyed (mc\<lparr> initialContent := Some p' \<rparr>) = destroyed mc \<and>
         (\<forall>p'' l. rp_Upgrade P p' = (p'', Inr l) \<longrightarrow>
            (\<exists>mc2 n err. mc_WriteAt P L now2 (mc\<lparr> initialContent := Some p' \<rparr>) buf2 off2 =
                            Return (mc2, n, err) \<and> dirty mc2 \<and> initialContent mc2 = None))"
  using assms
  by (auto simp: mc_WriteAt_def mc_Truncate_def ensureReadWriteLease_def dirty_def Let_def
      split: prod.splits)

theorem failed_upgrade_leaves_clean_witness:
  "mc_WriteAt remoteProxy scratchFile 7
     (NewContent remoteProxy \<lparr> remote_bytes = [1, 2, 3, 4], outages = 1 \<rparr>) [9] 2 =
     Return (NewContent remoteProxy \<lparr> remote_bytes = [1, 2, 3, 4], outages = 0 \<rparr>, 0,
             Some (Wrapped ''ensureReadWriteLease''
                    (Wrapped ''initialContent.Upgrade'' (OtherError ''remote I/O'')))) \<and>
   (\<exists>mc2 n err.
      mc_WriteAt remoteProxy scratchFile 8
        (NewContent remoteProxy \<lparr> remote_bytes = [1, 2, 3, 4], outages = 0 \<rparr>) [9] 2 =
        Return (mc2, n, err) \<and> dirty mc2 \<and> initialContent mc2 = None)"
proof -
  let ?p = "\<lparr> remote_bytes = [1, 2, 3, 4], outages = 1 \<rparr>"
  let ?p' = "\<lparr> remote_bytes = [1, 2, 3, 4], outages = 0 \<rparr>"
  have a: "readWriteLease (NewContent remoteProxy ?p) = None"
    and b: "initialContent (NewContent remoteProxy ?p) = Some ?p"
    by (simp_all add: NewContent_def)
  have c: "rp_Upgrade remoteProxy ?p = (?p', Inl (OtherError ''remote I/O''))"
    by (simp add: remoteProxy_def)
  have d: "rp_Upgrade remoteProxy ?p' = (?p', Inr \<lparr> contents = [1, 2, 3, 4], position = 0 \<rparr>)"
    by (simp add: remoteProxy_def)
  have e: "(NewContent remoteProxy ?p)\<lparr> initialContent := Some ?p' \<rparr> = NewContent remoteProxy ?p'"
    by (simp add: NewContent_def remoteProxy_def)
  from failed_upgrade_leaves_clean[OF a b c, where L = scratchFile and now = 7 and buf = "[9]"
      and off = 2 and k = 0 and ?now2.0 = 8 and ?buf2.0 = "[9]" and ?off2.0 = 2] d
  show ?thesis unfolding e by blast
qed

subsection \<open>Release\<close>



subsection \<open>Dirty for good\<close>

lemma perform_keeps_lease:
  assumes "dirty mc" and "perform P L mc c = Return mc'"
  shows "dirty mc' \<and> initialContent mc' = initialContent mc"
  using assms(2)
proof (cases rule: perform_cases)
  case (reading buf off buf' n err)
  from reading(2) assms(1) show ?thesis
    by (cases rule: mc_ReadAt_cases) (simp_all add: dirty_def)
next
  case (stat sr err)
  from stat(2) assms(1) show ?thesis
    by (cases rule: mc_Stat_cases) (simp_all add: dirty_def)
next
  case (writing now buf off n err)
  from writing(2) show ?thesis
  proof (cases rule: mc_WriteAt_cases)
    case (refused mc1 e)
    from refused(1) assms(1) show ?thesis
      by (cases rule: ensureReadWriteLease_cases) (simp_all add: dirty_def)
  next
    case (forwarded mc1 l l')
    from forwarded(1) assms(1) show ?thesis
      by (cases rule: ensureReadWriteLease_cases) (simp_all add: dirty_def forwarded)
  qed
next
  case (truncating now k err)
  from truncating(2) show ?thesis
  proof (cases rule: mc_Truncate_cases)
    case (refused mc1 e)
    from refused(1) assms(1) show ?thesis
      by (cases rule: ensureReadWriteLease_cases) (simp_all add: dirty_def)
  next
    case (forwarded mc1 l l')
    from forwarded(1) assms(1) show ?thesis
      by (cases rule: ensureReadWriteLease_cases) (simp_all add: dirty_def forwarded)
  qed
qed

lemma perform_dirty_returns:
  assumes "dirty mc"
  shows "\<exists>mc'. perform P L mc c = Return mc'"
  using assms
  by (cases c)
     (auto simp: dirty_def mc_ReadAt_def mc_Stat_def mc_WriteAt_def mc_Truncate_def
        ensureReadWriteLease_def Let_def not_above_MaxInt64 split: prod.splits)

lemma performAll_dirty_returns:
  "dirty mc \<Longrightarrow> \<exists>mc'. performAll P L mc cs = Return mc'"
proof (induction cs arbitrary: mc)
  case Nil
  then show ?case by simp
next
  case (Cons c cs)
  from perform_dirty_returns[OF Cons.prems] obtain m1 where s: "perform P L mc c = Return m1"
    by blast
  with perform_keeps_lease[OF Cons.prems s] Cons.IH[of m1] show ?case by simp
qed

text \<open>
  C9. From a dirty content every sequence of \<^verbatim>\<open>ReadAt\<close>, \<^verbatim>\<open>Stat\<close>, \<^verbatim>\<open>WriteAt\<close> and
  \<^verbatim>\<open>Truncate\<close> calls returns, and the content it leaves is dirty with the same (absent)
  proxy: the lease is never given up. \<^verbatim>\<open>Release\<close> and \<^verbatim>\<open>Destroy\<close> are the methods that
  take the lease away; from a dirty content both leave it destroyed.
\<close>

theorem dirty_is_irreversible:
  "(dirty mc \<longrightarrow>
      (\<exists>mc'. performAll P L mc cs = Return mc' \<and> dirty mc' \<and>
              initialContent mc' = initialContent mc) \<and>
      destroyed (fst (mc_Release mc)) \<and> destroyed (mc_Destroy mc)) \<and>
   \<not> dirty (fst (mc_Release mc)) \<and> \<not> dirty (mc_Destroy mc)"
proof (intro conjI impI)
  assume d: "dirty mc"
  from performAll_dirty_returns[OF d] obtain mc' where run: "performAll P L mc cs = Return mc'"
    by blast
  have "dirty mc' \<and> initialContent mc' = initialContent mc"
  proof (rule performAll_induct[OF run,
        where Q = "\<lambda>m. dirty m \<and> initialContent m = initialContent mc"])
    show "dirty mc \<and> initialContent mc = initialContent mc" using d by simp
  next
    fix m c m'
    assume "dirty m \<and> initialContent m = initialContent mc" and "perform P L m c = Return m'"
    then show "dirty m' \<and> initialContent m' = initialContent mc"
      using perform_keeps_lease by metis
  qed
  with run show "\<exists>mc'. performAll P L mc cs = Return mc' \<and> dirty mc' \<and>
      initialContent mc' = initialContent mc" by blast
  from d show "destroyed (fst (mc_Release mc))" by (simp add: mc_Release_def mc_Destroy_def)
  show "destroyed (mc_Destroy mc)" by (simp add: mc_Destroy_def)
next
  show "\<not> dirty (fst (mc_Release mc))" by (simp add: mc_Release_def mc_Destroy_def dirty_def)
  show "\<not> dirty (mc_Destroy mc)" by (simp add: mc_Destroy_def dirty_def)
qed

theorem dirty_is_irreversible_witness:
  "dirty \<lparr> destroyed = False, initialContent = (None :: remote option),
           readWriteLease = Some \<lparr> contents = [1, 2, 3, 4], position = 0 \<rparr>,
           dirtyThreshold = 2, mtime = Some 5 \<rparr> \<and>
   (\<exists>mc'. performAll remoteProxy scratchFile
             \<lparr> destroyed = False, initialContent = None,
               readWriteLease = Some \<lparr> contents = [1, 2, 3, 4], position = 0 \<rparr>,
               dirtyThreshold = 2, mtime = Some 5 \<rparr>
             [CallReadAt [0, 0] 1, CallStat, CallTruncate 6 1, CallWriteAt 7 [9] (- 1)] = Return mc' \<and>
           dirty mc' \<and> initialContent mc' = None)"
proof -
  let ?mc = "\<lparr> destroyed = False, initialContent = (None :: remote option),
           readWriteLease = Some \<lparr> contents = [1, 2, 3, 4], position = 0 \<rparr>,
           dirtyThreshold = 2, mtime = Some 5 \<rparr>"
  have d: "dirty ?mc" by (simp add: dirty_def)
  from dirty_is_irreversible[of ?mc remoteProxy scratchFile
      "[CallReadAt [0, 0] 1, CallStat, CallTruncate 6 1, CallWriteAt 7 [9] (- 1)]"] d
  show ?thesis by simp
qed

subsection \<open>A failed write\<close>

text \<open>
  C10. On a dirty content, when the lease's \<^verbatim>\<open>WriteAt\<close> (or \<^verbatim>\<open>Truncate\<close>) returns an
  error, the call returns that error and the content it leaves has the threshold at
  the minimum of its previous signed value and the offset (or the new size), hence at
  most the previous one, and \<open>mtime\<close> set to the clock's time: the bookkeeping done
  before the forwarded call stays.
\<close>

theorem bookkeeping_not_rolled_back:
  assumes "readWriteLease mc = Some l"
  shows "(rwl_WriteAt L l buf off = (l', n, Some e) \<longrightarrow>
            mc_WriteAt P L now mc buf off =
              Return (mc\<lparr> dirtyThreshold := minInt64 (dirtyThreshold mc) off, mtime := Some now,
                         readWriteLease := Some l' \<rparr>, n, Some e)) \<and>
         (rwl_Truncate L l k = (l'', Some e') \<longrightarrow>
            mc_Truncate P L now mc k =
              Return (mc\<lparr> dirtyThreshold := minInt64 (dirtyThreshold mc) k, mtime := Some now,
                         readWriteLease := Some l'' \<rparr>, Some e')) \<and>
         (rwl_WriteAt L l buf off = (l', n, Some e) \<longrightarrow>
            (\<exists>mc'. mc_WriteAt P L now mc buf off = Return (mc', n, Some e) \<and>
               sint (dirtyThreshold mc') = min (sint (dirtyThreshold mc)) (sint off) \<and>
               sint (dirtyThreshold mc') \<le> sint (dirtyThreshold mc) \<and>
               mtime mc' = Some now \<and> readWriteLease mc' = Some l')) \<and>
         (rwl_Truncate L l k = (l'', Some e') \<longrightarrow>
            (\<exists>mc'. mc_Truncate P L now mc k = Return (mc', Some e') \<and>
               sint (dirtyThreshold mc') = min (sint (dirtyThreshold mc)) (sint k) \<and>
               sint (dirtyThreshold mc') \<le> sint (dirtyThreshold mc) \<and>
               mtime mc' = Some now \<and> readWriteLease mc' = Some l''))"
  using assms
  by (simp add: mc_WriteAt_def mc_Truncate_def ensureReadWriteLease_def Let_def
      not_above_MaxInt64 minInt64_signed_min)

theorem bookkeeping_not_rolled_back_witness:
  "rwl_WriteAt scratchFile \<lparr> contents = [1, 2, 3, 4], position = 0 \<rparr> [9] MaxInt64 =
     (\<lparr> contents = [1, 2, 3, 4], position = 0 \<rparr>, 0, Some (OtherError ''file too large'')) \<and>
   mc_WriteAt remoteProxy scratchFile 6
     \<lparr> destroyed = False, initialContent = None,
       readWriteLease = Some \<lparr> contents = [1, 2, 3, 4], position = 0 \<rparr>,
       dirtyThreshold = 2, mtime = Some 5 \<rparr> [9] MaxInt64 =
     Return (\<lparr> destroyed = False, initialContent = None,
               readWriteLease = Some \<lparr> contents = [1, 2, 3, 4], position = 0 \<rparr>,
               dirtyThreshold = 2, mtime = Some 6 \<rparr>, 0, Some (OtherError ''file too large'')) \<and>
   sint (2 :: int64) = min (sint (2 :: int64)) (sint MaxInt64) \<and>
   rwl_WriteAt scratchFile \<lparr> contents = [1, 2, 3, 4], position = 0 \<rparr> [9] (- 5) =
     (\<lparr> contents = [1, 2, 3, 4], position = 0 \<rparr>, 0, Some (OtherError ''negative offset'')) \<and>
   mc_WriteAt remoteProxy scratchFile 7
     \<lparr> destroyed = False, initialContent = None,
       readWriteLease = Some \<lparr> contents = [1, 2, 3, 4], position = 0 \<rparr>,
       dirtyThreshold = 2, mtime = Some 6 \<rparr> [9] (- 5) =
     Return (\<lparr> destroyed = False, initialContent = None,
               readWriteLease = Some \<lparr> contents = [1, 2, 3, 4], position = 0 \<rparr>,
               dirtyThreshold = - 5, mtime = Some 7 \<rparr>, 0, Some (OtherError ''negative offset'')) \<and>
   sint (- 5 :: int64) = min (sint (2 :: int64)) (sint (- 5 :: int64)) \<and>
   rwl_Truncate scratchFile \<lparr> contents = [1, 2, 3, 4], position = 0 \<rparr> (- 3) =
     (\<lparr> contents = [1, 2, 3, 4], position = 0 \<rparr>, Some (OtherError ''invalid argument'')) \<and>
   mc_Truncate remoteProxy scratchFile 8
     \<lparr> destroyed = False, initialContent = None,
       readWriteLease = Some \<lparr> contents = [1, 2, 3, 4], position = 0 \<rparr>,
       dirtyThreshold = - 5, mtime = Some 7 \<rparr> (- 3) =
     Return (\<lparr> destroyed = False, initialContent = None,
               readWriteLease = Some \<lparr> contents = [1, 2, 3, 4], position = 0 \<rparr>,
               dirtyThreshold = - 5, mtime = Some 8 \<rparr>, Some (OtherError ''invalid argument'')) \<and>
   sint (- 5 :: int64) = min (sint (- 5 :: int64)) (sint (- 3 :: int64)) \<and>
   mc_Truncate remoteProxy scratchFile 9
     \<lparr> destroyed = False, initialContent = None,
       readWriteLease = Some \<lparr> contents = [1, 2, 3, 4], position = 0 \<rparr>,
       dirtyThreshold = 2, mtime = Some 6 \<rparr> (- 3) =
     Return (\<lparr> destroyed = False, initialContent = None,
               readWriteLease = Some \<lparr> contents = [1, 2, 3, 4], position = 0 \<rparr>,
               dirtyThreshold = - 3, mtime = Some 9 \<rparr>, Some (OtherError ''invalid argument'')) \<and>
   sint (- 3 :: int64) = min (sint (2 :: int64)) (sint (- 3 :: int64))"
proof -
  let ?l = "\<lparr> contents = [1, 2, 3, 4], position = 0 \<rparr>"
  let ?m = "\<lambda>d t. \<lparr> destroyed = False, initialContent = (None :: remote option),
       readWriteLease = Some ?l, dirtyThreshold = d, mtime = Some t \<rparr>"
  have h: "readWriteLease (?m d t) = Some ?l" for d t by simp
  have big: "rwl_WriteAt scratchFile ?l [9] MaxInt64 = (?l, 0, Some (OtherError ''file too large''))"
    by (simp add: scratchFile_def scratch_WriteAt_def word_sless_alt MaxInt64_def)
  have neg: "rwl_WriteAt scratchFile ?l [9] (- 5) = (?l, 0, Some (OtherError ''negative offset''))"
    by (simp add: scratchFile_def scratch_WriteAt_def word_sless_alt)
  have tr: "rwl_Truncate scratchFile ?l (- 3) = (?l, Some (OtherError ''invalid argument''))"
    by (simp add: scratchFile_def scratch_Truncate_def word_sless_alt)
  have mins: "minInt64 2 MaxInt64 = 2" "minInt64 2 (- 5) = - 5" "minInt64 (- 5) (- 3) = - 5"
    "minInt64 2 (- 3) = - 3"
    by (simp_all add: minInt64_def word_sless_alt MaxInt64_def)
  note A = bookkeeping_not_rolled_back[OF h[of 2 5], where L = scratchFile and buf = "[9]"
      and off = "MaxInt64" and l' = ?l and n = 0 and e = "OtherError ''file too large''" and k = "- 3"
      and l'' = ?l and e' = "OtherError ''invalid argument''" and P = remoteProxy and now = 6]
  note B = bookkeeping_not_rolled_back[OF h[of 2 6], where L = scratchFile and buf = "[9]"
      and off = "- 5" and l' = ?l and n = 0 and e = "OtherError ''negative offset''" and k = "- 3"
      and l'' = ?l and e' = "OtherError ''invalid argument''" and P = remoteProxy and now = 7]
  note C = bookkeeping_not_rolled_back[OF h[of "- 5" 7], where L = scratchFile and buf = "[9]"
      and off = "- 5" and l' = ?l and n = 0 and e = "OtherError ''negative offset''" and k = "- 3"
      and l'' = ?l and e' = "OtherError ''invalid argument''" and P = remoteProxy and now = 8]
  note D = bookkeeping_not_rolled_back[OF h[of 2 6], where L = scratchFile and buf = "[9]"
      and off = "- 5" and l' = ?l and n = 0 and e = "OtherError ''negative offset''" and k = "- 3"
      and l'' = ?l and e' = "OtherError ''invalid argument''" and P = remoteProxy and now = 9]
  from A big have a: "mc_WriteAt remoteProxy scratchFile 6 (?m 2 5) [9] MaxInt64 =
      Return (?m 2 6, 0, Some (OtherError ''file too large''))"
    and a': "sint (2 :: int64) = min (sint (2 :: int64)) (sint MaxInt64)"
    by (auto simp: mins)
  from B neg have b: "mc_WriteAt remoteProxy scratchFile 7 (?m 2 6) [9] (- 5) =
      Return (?m (- 5) 7, 0, Some (OtherError ''negative offset''))"
    and b': "sint (- 5 :: int64) = min (sint (2 :: int64)) (sint (- 5 :: int64))"
    by (auto simp: mins)
  from C tr have c: "mc_Truncate remoteProxy scratchFile 8 (?m (- 5) 7) (- 3) =
      Return (?m (- 5) 8, Some (OtherError ''invalid argument''))"
    and c': "sint (- 5 :: int64) = min (sint (- 5 :: int64)) (sint (- 3 :: int64))"
    by (auto simp: mins)
  from D tr have d: "mc_Truncate remoteProxy scratchFile 9 (?m 2 6) (- 3) =
      Return (?m (- 3) 9, Some (OtherError ''invalid argument''))"
    and d': "sint (- 3 :: int64) = min (sint (2 :: int64)) (sint (- 3 :: int64))"
    by (auto simp: mins)
  from big a a' neg b b' tr c c' d d' show ?thesis by blast
qed

subsection \<open>Reading back what was written\<close>

lemma pwrite_then_drop: "drop k (pwrite f B k) = B @ drop (k + length B) f"
  by (simp add: pwrite_def)

lemma pwrite_nothing: "pwrite f [] k = f"
  by (simp add: pwrite_def)

lemma pread_pwrite:
  "\<not> word_sless off 0 \<Longrightarrow>
     pread (pwrite f B (nat (sint off))) (length B) off = (B, int (length B), None)"
  by (simp add: pread_def pwrite_then_drop)

lemma stored_whole: "length buf = length B \<Longrightarrow> stored B buf = B"
  by (simp add: stored_def)

text \<open>
  C5. With a scratch file behind the read/write lease: after a \<^verbatim>\<open>WriteAt\<close> of \<open>B\<close> at
  \<open>off\<close> that returns no error, which reports all of \<open>B\<close> written and leaves the content
  dirty, a \<^verbatim>\<open>ReadAt\<close> at \<open>off\<close> into a buffer as long as \<open>B\<close> returns without error,
  reports the full length and leaves exactly \<open>B\<close> in the buffer.
\<close>

theorem write_then_read_back:
  assumes "mc_WriteAt P scratchFile now mc B off = Return (mc1, n, None)"
    and "length buf = length B"
  shows "n = int (length B) \<and> dirty mc1 \<and>
         mc_ReadAt P scratchFile mc1 buf off = Return (mc1, B, int (length B), None)"
  using assms(1)
proof (cases rule: mc_WriteAt_cases)
  case (forwarded mc0 l l')
  from forwarded(3) have ok: "\<not> word_sless off 0"
    and l': "l' = l\<lparr> contents := pwrite (contents l) B (nat (sint off)) \<rparr>"
    and n: "n = int (length B)"
    by (auto simp: scratchFile_def scratch_WriteAt_def split: if_splits)
  have lease: "readWriteLease mc1 = Some l'" by (simp add: forwarded(4))
  have "rwl_ReadAt scratchFile l' (length buf) off = (l', B, int (length B), None)"
    using pread_pwrite[OF ok, of "contents l" B] assms(2) by (simp add: scratchFile_def l')
  then have "mc_ReadAt P scratchFile mc1 buf off =
      Return (mc1\<lparr> readWriteLease := Some l' \<rparr>, B, int (length B), None)"
    using lease assms(2) by (simp add: mc_ReadAt_def stored_whole)
  moreover have "mc1\<lparr> readWriteLease := Some l' \<rparr> = mc1" using lease by simp
  ultimately show ?thesis using n lease by (simp add: dirty_def)
qed simp

theorem write_then_read_back_witness:
  "mc_WriteAt remoteProxy scratchFile 5
     (NewContent remoteProxy \<lparr> remote_bytes = [1, 2, 3, 4], outages = 0 \<rparr>) [8, 9] 6 =
     Return (\<lparr> destroyed = False, initialContent = None,
               readWriteLease = Some \<lparr> contents = [1, 2, 3, 4, 0, 0, 8, 9], position = 0 \<rparr>,
               dirtyThreshold = 4, mtime = Some 5 \<rparr>, 2, None) \<and>
   mc_ReadAt remoteProxy scratchFile
     \<lparr> destroyed = False, initialContent = None,
       readWriteLease = Some \<lparr> contents = [1, 2, 3, 4, 0, 0, 8, 9], position = 0 \<rparr>,
       dirtyThreshold = 4, mtime = Some 5 \<rparr> [0, 0] 6 =
     Return (\<lparr> destroyed = False, initialContent = None,
               readWriteLease = Some \<lparr> contents = [1, 2, 3, 4, 0, 0, 8, 9], position = 0 \<rparr>,
               dirtyThreshold = 4, mtime = Some 5 \<rparr>, [8, 9], 2, None)"
proof -
  let ?mc1 = "\<lparr> destroyed = False, initialContent = (None :: remote option),
               readWriteLease = Some \<lparr> contents = [1, 2, 3, 4, 0, 0, 8, 9], position = 0 \<rparr>,
               dirtyThreshold = 4, mtime = Some 5 \<rparr>"
  have w: "mc_WriteAt remoteProxy scratchFile 5
     (NewContent remoteProxy \<lparr> remote_bytes = [1, 2, 3, 4], outages = 0 \<rparr>) [8, 9] 6 =
     Return (?mc1, 2, None)"
    by (simp add: NewContent_def remoteProxy_def scratchFile_def mc_WriteAt_def
      ensureReadWriteLease_def minInt64_def scratch_WriteAt_def pwrite_def
      MaxInt64_def word_sless_alt eval_nat_numeral)
  have len: "length [0, 0 :: byte] = length [8, 9 :: byte]" by simp
  from write_then_read_back[OF w len] w show ?thesis by simp
qed

section \<open>Properties of the multi read proxy\<close>

subsection \<open>What a read leaves untouched\<close>

lemma readFromOne_fields:
  assumes "readFromOne P mrp i p off = Return (mrp', p', n, e)"
  shows "i < length (mrp_rps mrp) \<and>
         (\<exists>wrapped' r. rp_ReadAt P (snd (mrp_rps mrp ! i)) (length p)
                          (off - fst (mrp_rps mrp ! i)) = (wrapped', r) \<and>
            mrp' = mrp\<lparr> mrp_rps := (mrp_rps mrp)[i := (fst (mrp_rps mrp ! i), wrapped')] \<rparr>)"
  using assms
  by (auto simp: readFromOne_def readFromOne_deferred_def Let_def split: if_splits prod.splits)

text \<open>A property kept by every read from one wrapped proxy is kept by the loop.\<close>

lemma readLoop_keeps:
  assumes step: "\<And>m j q k m1 x. Q m \<Longrightarrow> readFromOne P m j q k = Return (m1, x) \<Longrightarrow> Q m1"
  shows "readLoop P mrp n filled p off i = Return (mrp', r) \<Longrightarrow> Q mrp \<Longrightarrow> Q mrp'"
proof (induction "length (mrp_rps mrp) - i" arbitrary: mrp n filled p off i)
  case 0
  from "0.prems"(1) show ?case
  proof (cases "length p > 0 \<and> i \<noteq> length (mrp_rps mrp)")
    case False
    with "0.prems" show ?thesis
      by (auto simp: readLoop.simps[of P mrp n filled p off i] split: if_splits)
  next
    case True
    with "0.prems"(1) obtain m1 x where one: "readFromOne P mrp i p off = Return (m1, x)"
      by (auto simp: readLoop.simps[of P mrp n filled p off i] split: result.splits)
    then obtain p1 n1 e1 where "readFromOne P mrp i p off = Return (m1, p1, n1, e1)"
      by (cases x) auto
    from readFromOne_fields[OF this] "0.hyps" show ?thesis by simp
  qed
next
  case (Suc d)
  show ?case
  proof (cases "length p > 0 \<and> i \<noteq> length (mrp_rps mrp)")
    case False
    with Suc.prems show ?thesis
      by (auto simp: readLoop.simps[of P mrp n filled p off i] split: if_splits)
  next
    case True
    with Suc.prems(1) obtain m1 p1 n1 e1
      where one: "readFromOne P mrp i p off = Return (m1, p1, n1, e1)"
      by (auto simp: readLoop.simps[of P mrp n filled p off i] split: result.splits)
    from step[OF Suc.prems(2) one] have q1: "Q m1" .
    from readFromOne_fields[OF one] have len: "length (mrp_rps m1) = length (mrp_rps mrp)"
      by auto
    show ?thesis
    proof (cases e1)
      case (Some e)
      with Suc.prems(1) True one q1 show ?thesis
        by (auto simp: readLoop.simps[of P mrp n filled p off i])
    next
      case None
      with Suc.prems(1) True one
      have rest: "readLoop P m1 (n + n1) (filled @ take (nat n1) p1) (drop (nat n1) p1)
                     (off + word_of_int n1) (i + 1) = Return (mrp', r)"
        by (auto simp: readLoop.simps[of P mrp n filled p off i] split: if_splits)
      from Suc.hyps(2) len have "d = length (mrp_rps m1) - (i + 1)" by simp
      from Suc.hyps(1)[OF this rest q1] show ?thesis .
    qed
  qed
qed

lemma mrp_ReadAt_wrapped_keeps:
  assumes step: "\<And>m j q k m1 x. Q m \<Longrightarrow> readFromOne P m j q k = Return (m1, x) \<Longrightarrow> Q m1"
    and run: "mrp_ReadAt_wrapped P mrp n p off = Return (mrp', r)" and start: "Q mrp"
  shows "Q mrp'"
proof -
  from run consider "mrp' = mrp"
    | i where "readLoop P mrp n [] p off i = Return (mrp', r)"
    by (auto simp: mrp_ReadAt_wrapped_def Let_def split: if_splits)
  then show ?thesis
  proof cases
    case 1
    with start show ?thesis by simp
  next
    case 2
    from readLoop_keeps[where Q = Q, OF step 2 start] show ?thesis .
  qed
qed

lemma mrp_ReadAt_wrapped_lease:
  fixes mrp :: "('p, 'r, 'f) multiReadProxy"
  assumes "mrp_ReadAt_wrapped P mrp n p off = Return (mrp', r)"
  shows "mrp_lease mrp' = mrp_lease mrp"
proof (rule mrp_ReadAt_wrapped_keeps[where Q = "\<lambda>m. mrp_lease m = mrp_lease mrp", OF _ assms])
  fix m m1 :: "('p, 'r, 'f) multiReadProxy" and j q k x
  assume "mrp_lease m = mrp_lease mrp" and one: "readFromOne P m j q k = Return (m1, x)"
  moreover obtain p1 n1 e1 where "x = (p1, n1, e1)" by (cases x) auto
  ultimately show "mrp_lease m1 = mrp_lease mrp"
    using readFromOne_fields[of P m j q k m1 p1 n1 e1] by auto
qed simp

lemma mrp_Upgrade_wrapped_lease:
  "mrp_lease (fst (mrp_Upgrade_wrapped P F L mrp)) = mrp_lease mrp"
  by (simp add: mrp_Upgrade_wrapped_def split: prod.splits sum.splits option.splits)

subsection \<open>The top-level lease\<close>

text \<open>
  C6. With a top-level lease attached, \<^verbatim>\<open>ReadAt\<close> and \<^verbatim>\<open>Upgrade\<close> first call the lease.
  What the lease returns without error is returned at once. When the lease answers with
  a revocation error, the field is set to nil and the call is the remainder of the
  method over the wrapped proxies; every state that remainder returns has the field
  nil, and a call on a proxy without lease is that remainder from the start. Any other
  error of the lease is returned as it is, with what the lease returned beside it.
\<close>

theorem lease_consulted_first:
  assumes "mrp_lease mrp = Some l"
  shows "(\<forall>l' w n. rl_ReadAt R l (length p) off = (l', w, n, None) \<longrightarrow>
            mrp_ReadAt P R mrp p off =
              Return (mrp\<lparr> mrp_lease := Some l' \<rparr>, stored w p, n, None)) \<and>
         (\<forall>l' w n. rl_ReadAt R l (length p) off = (l', w, n, Some RevokedError) \<longrightarrow>
            mrp_ReadAt P R mrp p off =
              mrp_ReadAt_wrapped P (mrp\<lparr> mrp_lease := None \<rparr>) n (stored w p) off \<and>
            (\<forall>mrp' r. mrp_ReadAt P R mrp p off = Return (mrp', r) \<longrightarrow>
               mrp_lease mrp' = None \<and>
               (\<forall>p2 off2. mrp_ReadAt P R mrp' p2 off2 = mrp_ReadAt_wrapped P mrp' 0 p2 off2) \<and>
               mrp_Upgrade P R F L mrp' =
                 mrp_Upgrade_wrapped P F L (mrp'\<lparr> mrp_destroyed := True \<rparr>))) \<and>
         (\<forall>l' w n e. rl_ReadAt R l (length p) off = (l', w, n, Some e) \<and> e \<noteq> RevokedError \<longrightarrow>
            mrp_ReadAt P R mrp p off =
              Return (mrp\<lparr> mrp_lease := Some l' \<rparr>, stored w p, n, Some e)) \<and>
         (\<forall>l' rwl. rl_Upgrade R l = (l', Inr rwl) \<longrightarrow>
            mrp_Upgrade P R F L mrp =
              (mrp\<lparr> mrp_destroyed := True, mrp_lease := Some l' \<rparr>, Some rwl, None)) \<and>
         (\<forall>l'. rl_Upgrade R l = (l', Inl RevokedError) \<longrightarrow>
            mrp_Upgrade P R F L mrp =
              mrp_Upgrade_wrapped P F L (mrp\<lparr> mrp_destroyed := True, mrp_lease := None \<rparr>) \<and>
            mrp_lease (fst (mrp_Upgrade P R F L mrp)) = None) \<and>
         (\<forall>l' e. rl_Upgrade R l = (l', Inl e) \<and> e \<noteq> RevokedError \<longrightarrow>
            mrp_Upgrade P R F L mrp =
              (mrp\<lparr> mrp_destroyed := True, mrp_lease := Some l' \<rparr>, None, Some e))"
proof (intro conjI allI impI)
  fix l' w n
  assume "rl_ReadAt R l (length p) off = (l', w, n, None)"
  with assms show "mrp_ReadAt P R mrp p off =
      Return (mrp\<lparr> mrp_lease := Some l' \<rparr>, stored w p, n, None)"
    by (simp add: mrp_ReadAt_def)
next
  fix l' w n
  assume rev: "rl_ReadAt R l (length p) off = (l', w, n, Some RevokedError)"
  with assms show eq: "mrp_ReadAt P R mrp p off =
      mrp_ReadAt_wrapped P (mrp\<lparr> mrp_lease := None \<rparr>) n (stored w p) off"
    by (simp add: mrp_ReadAt_def)
  fix mrp' r
  assume "mrp_ReadAt P R mrp p off = Return (mrp', r)"
  with eq have "mrp_ReadAt_wrapped P (mrp\<lparr> mrp_lease := None \<rparr>) n (stored w p) off =
      Return (mrp', r)" by simp
  from mrp_ReadAt_wrapped_lease[OF this] show none: "mrp_lease mrp' = None" by simp
  then show "mrp_Upgrade P R F L mrp' =
      mrp_Upgrade_wrapped P F L (mrp'\<lparr> mrp_destroyed := True \<rparr>)"
    by (simp add: mrp_Upgrade_def)
  fix p2 off2
  from none show "mrp_ReadAt P R mrp' p2 off2 = mrp_ReadAt_wrapped P mrp' 0 p2 off2"
    by (simp add: mrp_ReadAt_def)
next
  fix l' w n e
  assume "rl_ReadAt R l (length p) off = (l', w, n, Some e) \<and> e \<noteq> RevokedError"
  with assms show "mrp_ReadAt P R mrp p off =
      Return (mrp\<lparr> mrp_lease := Some l' \<rparr>, stored w p, n, Some e)"
    by (simp add: mrp_ReadAt_def)
next
  fix l' rwl
  assume "rl_Upgrade R l = (l', Inr rwl)"
  with assms show "mrp_Upgrade P R F L mrp =
      (mrp\<lparr> mrp_destroyed := True, mrp_lease := Some l' \<rparr>, Some rwl, None)"
    by (simp add: mrp_Upgrade_def)
next
  fix l'
  assume "rl_Upgrade R l = (l', Inl RevokedError)"
  with assms show eq: "mrp_Upgrade P R F L mrp =
      mrp_Upgrade_wrapped P F L (mrp\<lparr> mrp_destroyed := True, mrp_lease := None \<rparr>)"
    by (simp add: mrp_Upgrade_def)
  show "mrp_lease (fst (mrp_Upgrade P R F L mrp)) = None"
    unfolding eq by (simp add: mrp_Upgrade_wrapped_lease)
next
  fix l' e
  assume "rl_Upgrade R l = (l', Inl e) \<and> e \<noteq> RevokedError"
  with assms show "mrp_Upgrade P R F L mrp =
      (mrp\<lparr> mrp_destroyed := True, mrp_lease := Some l' \<rparr>, None, Some e)"
    by (simp add: mrp_Upgrade_def)
qed

theorem lease_consulted_first_witness:
  "rl_ReadAt leasedFile \<lparr> leased_bytes = [1, 2, 3, 4], revoked = True \<rparr> (length [0, 0, 0 :: byte]) 1 =
     (\<lparr> leased_bytes = [1, 2, 3, 4], revoked = True \<rparr>, [], 0, Some RevokedError) \<and>
   mrp_ReadAt remoteProxy leasedFile
     \<lparr> mrp_size = 4, mrp_leaser = True,
       mrp_rps = [(0, \<lparr> remote_bytes = [1, 2], outages = 0 \<rparr>),
                  (2, \<lparr> remote_bytes = [3, 4], outages = 0 \<rparr>)],
       mrp_lease = Some \<lparr> leased_bytes = [1, 2, 3, 4], revoked = True \<rparr>,
       mrp_destroyed = False \<rparr> [0, 0, 0] 1 =
     Return (\<lparr> mrp_size = 4, mrp_leaser = True,
               mrp_rps = [(0, \<lparr> remote_bytes = [1, 2], outages = 0 \<rparr>),
                          (2, \<lparr> remote_bytes = [3, 4], outages = 0 \<rparr>)],
               mrp_lease = None, mrp_destroyed = False \<rparr>, [2, 3, 4], 3, None) \<and>
   mrp_ReadAt remoteProxy leasedFile
     \<lparr> mrp_size = 4, mrp_leaser = True,
       mrp_rps = [(0, \<lparr> remote_bytes = [1, 2], outages = 0 \<rparr>),
                  (2, \<lparr> remote_bytes = [3, 4], outages = 0 \<rparr>)],
       mrp_lease = Some \<lparr> leased_bytes = [1, 2, 3, 4], revoked = False \<rparr>,
       mrp_destroyed = False \<rparr> [0, 0, 0] 1 =
     Return (\<lparr> mrp_size = 4, mrp_leaser = True,
               mrp_rps = [(0, \<lparr> remote_bytes = [1, 2], outages = 0 \<rparr>),
                          (2, \<lparr> remote_bytes = [3, 4], outages = 0 \<rparr>)],
               mrp_lease = Some \<lparr> leased_bytes = [1, 2, 3, 4], revoked = False \<rparr>,
               mrp_destroyed = False \<rparr>, [2, 3, 4], 3, None) \<and>
   mrp_ReadAt remoteProxy leasedFile
     \<lparr> mrp_size = 4, mrp_leaser = True,
       mrp_rps = [(0, \<lparr> remote_bytes = [1, 2], outages = 0 \<rparr>),
                  (2, \<lparr> remote_bytes = [3, 4], outages = 0 \<rparr>)],
       mrp_lease = Some \<lparr> leased_bytes = [1, 2, 3, 4], revoked = False \<rparr>,
       mrp_destroyed = False \<rparr> [0, 0, 0] (- 1) =
     Return (\<lparr> mrp_size = 4, mrp_leaser = True,
               mrp_rps = [(0, \<lparr> remote_bytes = [1, 2], outages = 0 \<rparr>),
                          (2, \<lparr> remote_bytes = [3, 4], outages = 0 \<rparr>)],
               mrp_lease = Some \<lparr> leased_bytes = [1, 2, 3, 4], revoked = False \<rparr>,
               mrp_destroyed = False \<rparr>, [0, 0, 0], 0, Some (OtherError ''negative offset'')) \<and>
   mrp_Upgrade remoteProxy leasedFile scratchDir scratchFile
     \<lparr> mrp_size = 4, mrp_leaser = True,
       mrp_rps = [(0, \<lparr> remote_bytes = [1, 2], outages = 0 \<rparr>),
                  (2, \<lparr> remote_bytes = [3, 4], outages = 0 \<rparr>)],
       mrp_lease = Some \<lparr> leased_bytes = [1, 2, 3, 4], revoked = False \<rparr>,
       mrp_destroyed = False \<rparr> =
     (\<lparr> mrp_size = 4, mrp_leaser = True,
        mrp_rps = [(0, \<lparr> remote_bytes = [1, 2], outages = 0 \<rparr>),
                   (2, \<lparr> remote_bytes = [3, 4], outages = 0 \<rparr>)],
        mrp_lease = Some \<lparr> leased_bytes = [1, 2, 3, 4], revoked = True \<rparr>,
        mrp_destroyed = True \<rparr>, Some \<lparr> contents = [1, 2, 3, 4], position = 0 \<rparr>, None) \<and>
   mrp_Upgrade remoteProxy leasedFile scratchDir scratchFile
     \<lparr> mrp_size = 4, mrp_leaser = True,
       mrp_rps = [(0, \<lparr> remote_bytes = [1, 2], outages = 0 \<rparr>),
                  (2, \<lparr> remote_bytes = [3, 4], outages = 0 \<rparr>)],
       mrp_lease = Some \<lparr> leased_bytes = [1, 2, 3, 4], revoked = True \<rparr>,
       mrp_destroyed = False \<rparr> =
     (\<lparr> mrp_size = 4, mrp_leaser = True,
        mrp_rps = [(0, \<lparr> remote_bytes = [1, 2], outages = 0 \<rparr>),
                   (2, \<lparr> remote_bytes = [3, 4], outages = 0 \<rparr>)],
        mrp_lease = None, mrp_destroyed = True \<rparr>,
      Some \<lparr> contents = [1, 2, 3, 4], position = 4 \<rparr>, None)"
proof -
  let ?rps = "[(0 :: int64, \<lparr> remote_bytes = [1, 2], outages = 0 \<rparr>),
               (2, \<lparr> remote_bytes = [3, 4], outages = 0 \<rparr>)]"
  let ?dead = "\<lparr> leased_bytes = [1, 2, 3, 4], revoked = True \<rparr>"
  let ?live = "\<lparr> leased_bytes = [1, 2, 3, 4], revoked = False \<rparr>"
  let ?m = "\<lambda>l. \<lparr> mrp_size = 4, mrp_leaser = True, mrp_rps = ?rps, mrp_lease = l,
                 mrp_destroyed = False \<rparr>"
  have dead: "mrp_lease (?m (Some ?dead)) = Some ?dead"
    and live: "mrp_lease (?m (Some ?live)) = Some ?live" by simp_all
  have r1: "rl_ReadAt leasedFile ?dead (length [0, 0, 0 :: byte]) 1 = (?dead, [], 0, Some RevokedError)"
    by (simp add: leasedFile_def)
  have r2: "rl_ReadAt leasedFile ?live (length [0, 0, 0 :: byte]) 1 = (?live, [2, 3, 4], 3, None)"
    by (simp add: leasedFile_def pread_def word_sless_alt)
  have r3: "rl_ReadAt leasedFile ?live (length [0, 0, 0 :: byte]) (- 1) =
      (?live, [], 0, Some (OtherError ''negative offset'')) \<and> OtherError ''negative offset'' \<noteq> RevokedError"
    by (simp add: leasedFile_def pread_def word_sless_alt)
  have u1: "rl_Upgrade leasedFile ?live = (?dead, Inr \<lparr> contents = [1, 2, 3, 4], position = 0 \<rparr>)"
    by (simp add: leasedFile_def)
  have u2: "rl_Upgrade leasedFile ?dead = (?dead, Inl RevokedError)"
    by (simp add: leasedFile_def)
  have w1: "mrp_ReadAt_wrapped remoteProxy ((?m (Some ?dead))\<lparr> mrp_lease := None \<rparr>) 0
      (stored [] [0, 0, 0]) 1 = Return (?m None, [2, 3, 4], 3, None)"
    by code_simp
  have w2: "mrp_Upgrade_wrapped remoteProxy scratchDir scratchFile
      ((?m (Some ?dead))\<lparr> mrp_destroyed := True, mrp_lease := None \<rparr>) =
      ((?m None)\<lparr> mrp_destroyed := True \<rparr>, Some \<lparr> contents = [1, 2, 3, 4], position = 4 \<rparr>, None)"
    by code_simp
  note A = lease_consulted_first[OF dead, of leasedFile "[0, 0, 0]" 1 remoteProxy scratchDir scratchFile]
  note B = lease_consulted_first[OF live, of leasedFile "[0, 0, 0]" 1 remoteProxy scratchDir scratchFile]
  note C = lease_consulted_first[OF live, of leasedFile "[0, 0, 0]" "- 1" remoteProxy scratchDir scratchFile]
  from A r1 have a: "mrp_ReadAt remoteProxy leasedFile (?m (Some ?dead)) [0, 0, 0] 1 =
      mrp_ReadAt_wrapped remoteProxy ((?m (Some ?dead))\<lparr> mrp_lease := None \<rparr>) 0 (stored [] [0, 0, 0]) 1"
    by blast
  from B r2 have b: "mrp_ReadAt remoteProxy leasedFile (?m (Some ?live)) [0, 0, 0] 1 =
      Return ((?m (Some ?live))\<lparr> mrp_lease := Some ?live \<rparr>, stored [2, 3, 4] [0, 0, 0], 3, None)"
    by blast
  from C r3 have c: "mrp_ReadAt remoteProxy leasedFile (?m (Some ?live)) [0, 0, 0] (- 1) =
      Return ((?m (Some ?live))\<lparr> mrp_lease := Some ?live \<rparr>, stored [] [0, 0, 0], 0,
              Some (OtherError ''negative offset''))"
    by blast
  from B u1 have d: "mrp_Upgrade remoteProxy leasedFile scratchDir scratchFile (?m (Some ?live)) =
      ((?m (Some ?live))\<lparr> mrp_destroyed := True, mrp_lease := Some ?dead \<rparr>,
       Some \<lparr> contents = [1, 2, 3, 4], position = 0 \<rparr>, None)"
    by blast
  from A u2 have e: "mrp_Upgrade remoteProxy leasedFile scratchDir scratchFile (?m (Some ?dead)) =
      mrp_Upgrade_wrapped remoteProxy scratchDir scratchFile
        ((?m (Some ?dead))\<lparr> mrp_destroyed := True, mrp_lease := None \<rparr>)"
    by blast
  show ?thesis
    unfolding a b c d e w1 w2 using r1 by (simp add: stored_def)
qed

subsection \<open>Offsets out of range\<close>

text \<open>
  C7, as the code has it. Without a top-level lease, and likewise when the lease answers
  the call with a revocation error, \<^verbatim>\<open>ReadAt\<close> returns the invalid-offset error for a
  negative offset and \<^verbatim>\<open>io.EOF\<close> for an offset at or beyond the total size. With a lease
  that answers anything else, the call returns what the lease returned and the
  proxy's own checks of the offset are not reached.
\<close>

theorem offsets_checked_below_the_lease:
  "(mrp_lease mrp = None \<longrightarrow>
      (word_sless off 0 \<longrightarrow>
         mrp_ReadAt P R mrp p off = Return (mrp, p, 0, Some (InvalidOffset off))) \<and>
      (\<not> word_sless off 0 \<and> \<not> word_sless off (mrp_size mrp) \<longrightarrow>
         mrp_ReadAt P R mrp p off = Return (mrp, p, 0, Some EOF))) \<and>
   (\<forall>l l' w n. mrp_lease mrp = Some l \<and>
        rl_ReadAt R l (length p) off = (l', w, n, Some RevokedError) \<longrightarrow>
      (word_sless off 0 \<longrightarrow>
         mrp_ReadAt P R mrp p off =
           Return (mrp\<lparr> mrp_lease := None \<rparr>, stored w p, n, Some (InvalidOffset off))) \<and>
      (\<not> word_sless off 0 \<and> \<not> word_sless off (mrp_size mrp) \<longrightarrow>
         mrp_ReadAt P R mrp p off =
           Return (mrp\<lparr> mrp_lease := None \<rparr>, stored w p, n, Some EOF))) \<and>
   (\<forall>l l' w n err. mrp_lease mrp = Some l \<and>
        rl_ReadAt R l (length p) off = (l', w, n, err) \<and> err \<noteq> Some RevokedError \<longrightarrow>
      mrp_ReadAt P R mrp p off = Return (mrp\<lparr> mrp_lease := Some l' \<rparr>, stored w p, n, err))"
  by (auto simp: mrp_ReadAt_def mrp_ReadAt_wrapped_def mrp_Size_def split: option.splits)

theorem offsets_checked_below_the_lease_witness:
  "mrp_ReadAt remoteProxy leasedFile
     \<lparr> mrp_size = 4, mrp_leaser = True,
       mrp_rps = [(0, \<lparr> remote_bytes = [1, 2, 3, 4], outages = 0 \<rparr>)],
       mrp_lease = None, mrp_destroyed = False \<rparr> [0] (- 1) =
     Return (\<lparr> mrp_size = 4, mrp_leaser = True,
               mrp_rps = [(0, \<lparr> remote_bytes = [1, 2, 3, 4], outages = 0 \<rparr>)],
               mrp_lease = None, mrp_destroyed = False \<rparr>, [0], 0, Some (InvalidOffset (- 1))) \<and>
   mrp_ReadAt remoteProxy leasedFile
     \<lparr> mrp_size = 4, mrp_leaser = True,
       mrp_rps = [(0, \<lparr> remote_bytes = [1, 2, 3, 4], outages = 0 \<rparr>)],
       mrp_lease = None, mrp_destroyed = False \<rparr> [0] 4 =
     Return (\<lparr> mrp_size = 4, mrp_leaser = True,
               mrp_rps = [(0, \<lparr> remote_bytes = [1, 2, 3, 4], outages = 0 \<rparr>)],
               mrp_lease = None, mrp_destroyed = False \<rparr>, [0], 0, Some EOF) \<and>
   mrp_ReadAt remoteProxy leasedFile
     \<lparr> mrp_size = 4, mrp_leaser = True,
       mrp_rps = [(0, \<lparr> remote_bytes = [1, 2, 3, 4], outages = 0 \<rparr>)],
       mrp_lease = Some \<lparr> leased_bytes = [1, 2, 3, 4], revoked = True \<rparr>,
       mrp_destroyed = False \<rparr> [0] 9 =
     Return (\<lparr> mrp_size = 4, mrp_leaser = True,
               mrp_rps = [(0, \<lparr> remote_bytes = [1, 2, 3, 4], outages = 0 \<rparr>)],
               mrp_lease = None, mrp_destroyed = False \<rparr>, [0], 0, Some EOF) \<and>
   mrp_ReadAt remoteProxy leasedFile
     \<lparr> mrp_size = 4, mrp_leaser = True,
       mrp_rps = [(0, \<lparr> remote_bytes = [1, 2, 3, 4], outages = 0 \<rparr>)],
       mrp_lease = Some \<lparr> leased_bytes = [1, 2, 3, 4], revoked = False \<rparr>,
       mrp_destroyed = False \<rparr> [0] 4 =
     Return (\<lparr> mrp_size = 4, mrp_leaser = True,
               mrp_rps = [(0, \<lparr> remote_bytes = [1, 2, 3, 4], outages = 0 \<rparr>)],
               mrp_lease = Some \<lparr> leased_bytes = [1, 2, 3, 4], revoked = False \<rparr>,
               mrp_destroyed = False \<rparr>, [0], 0, Some EOF)"
proof -
  let ?rps = "[(0 :: int64, \<lparr> remote_bytes = [1, 2, 3, 4], outages = 0 \<rparr>)]"
  let ?dead = "\<lparr> leased_bytes = [1, 2, 3, 4], revoked = True \<rparr>"
  let ?live = "\<lparr> leased_bytes = [1, 2, 3, 4], revoked = False \<rparr>"
  let ?m = "\<lambda>l. \<lparr> mrp_size = 4, mrp_leaser = True, mrp_rps = ?rps, mrp_lease = l,
                 mrp_destroyed = False \<rparr>"
  have neg: "word_sless (- 1 :: int64) 0" and end4: "\<not> word_sless (4 :: int64) 0 \<and> \<not> word_sless (4 :: int64) 4"
    and end9: "\<not> word_sless (9 :: int64) 0 \<and> \<not> word_sless (9 :: int64) 4"
    by (simp_all add: word_sless_alt)
  have r1: "rl_ReadAt leasedFile ?dead (length [0 :: byte]) 9 = (?dead, [], 0, Some RevokedError)"
    by (simp add: leasedFile_def)
  have r2: "rl_ReadAt leasedFile ?live (length [0 :: byte]) 4 = (?live, [], 0, Some EOF)"
    by (simp add: leasedFile_def pread_def word_sless_alt)
  note N1 = offsets_checked_below_the_lease[of "?m None" "- 1" remoteProxy leasedFile "[0]"]
  note N2 = offsets_checked_below_the_lease[of "?m None" 4 remoteProxy leasedFile "[0]"]
  note D = offsets_checked_below_the_lease[of "?m (Some ?dead)" 9 remoteProxy leasedFile "[0]"]
  note V = offsets_checked_below_the_lease[of "?m (Some ?live)" 4 remoteProxy leasedFile "[0]"]
  from N1 neg have a: "mrp_ReadAt remoteProxy leasedFile (?m None) [0] (- 1) =
      Return (?m None, [0], 0, Some (InvalidOffset (- 1)))" by simp
  from N2 end4 have b: "mrp_ReadAt remoteProxy leasedFile (?m None) [0] 4 =
      Return (?m None, [0], 0, Some EOF)" by simp
  from D end9 r1 have c: "mrp_ReadAt remoteProxy leasedFile (?m (Some ?dead)) [0] 9 =
      Return ((?m (Some ?dead))\<lparr> mrp_lease := None \<rparr>, stored [] [0], 0, Some EOF)" by simp
  from V r2 have d: "mrp_ReadAt remoteProxy leasedFile (?m (Some ?live)) [0] 4 =
      Return ((?m (Some ?live))\<lparr> mrp_lease := Some ?live \<rparr>, stored [] [0], 0, Some EOF)" by simp
  show ?thesis unfolding a b c d by (simp add: stored_def)
qed

text \<open>
  C7 as stated fails: a proxy built by \<^verbatim>\<open>NewMultiReadProxy\<close> with a lease over its four
  bytes is asked for zero bytes at offset 4, its total size. The lease is alive and
  answers a read of no bytes without error, so the call returns a nil error where the
  claim expects \<^verbatim>\<open>io.EOF\<close>; the same call without the lease returns \<^verbatim>\<open>io.EOF\<close>.
\<close>

theorem live_lease_answers_counterexample:
  "NewMultiReadProxy remoteProxy leasedFile (\<lambda>fl r. r) True
     [\<lparr> remote_bytes = [1, 2, 3, 4], outages = 0 \<rparr>]
     (Some \<lparr> leased_bytes = [1, 2, 3, 4], revoked = False \<rparr>) =
     Return \<lparr> mrp_size = 4, mrp_leaser = True,
              mrp_rps = [(0, \<lparr> remote_bytes = [1, 2, 3, 4], outages = 0 \<rparr>)],
              mrp_lease = Some \<lparr> leased_bytes = [1, 2, 3, 4], revoked = False \<rparr>,
              mrp_destroyed = False \<rparr> \<and>
   \<not> word_sless (4 :: int64) 4 \<and>
   mrp_ReadAt remoteProxy leasedFile
     \<lparr> mrp_size = 4, mrp_leaser = True,
       mrp_rps = [(0, \<lparr> remote_bytes = [1, 2, 3, 4], outages = 0 \<rparr>)],
       mrp_lease = Some \<lparr> leased_bytes = [1, 2, 3, 4], revoked = False \<rparr>,
       mrp_destroyed = False \<rparr> [] 4 =
     Return (\<lparr> mrp_size = 4, mrp_leaser = True,
               mrp_rps = [(0, \<lparr> remote_bytes = [1, 2, 3, 4], outages = 0 \<rparr>)],
               mrp_lease = Some \<lparr> leased_bytes = [1, 2, 3, 4], revoked = False \<rparr>,
               mrp_destroyed = False \<rparr>, [], 0, None) \<and>
   mrp_ReadAt remoteProxy leasedFile
     \<lparr> mrp_size = 4, mrp_leaser = True,
       mrp_rps = [(0, \<lparr> remote_bytes = [1, 2, 3, 4], outages = 0 \<rparr>)],
       mrp_lease = None, mrp_destroyed = False \<rparr> [] 4 =
     Return (\<lparr> mrp_size = 4, mrp_leaser = True,
               mrp_rps = [(0, \<lparr> remote_bytes = [1, 2, 3, 4], outages = 0 \<rparr>)],
               mrp_lease = None, mrp_destroyed = False \<rparr>, [], 0, Some EOF)"
  by (simp add: NewMultiReadProxy_def remoteProxy_def leasedFile_def mrp_ReadAt_def
      mrp_ReadAt_wrapped_def mrp_Size_def pread_def stored_def word_sless_alt)

subsection \<open>Offsets and sizes\<close>

lemma chained_snoc:
  "chained P s (xs @ [x]) \<longleftrightarrow>
     chained P s xs \<and> fst x = s + sum_list (map (\<lambda>y. rp_Size P (snd y)) xs)"
  by (induction xs arbitrary: s) (auto simp: add.assoc)

lemma wrapRefreshers_chained:
  assumes "wrapRefreshers P wrap rs acc sz = (rps, whole)"
    and "chained P 0 acc" and "sz = sum_list (map (\<lambda>y. rp_Size P (snd y)) acc)"
  shows "chained P 0 rps \<and> whole = sum_list (map (\<lambda>y. rp_Size P (snd y)) rps) \<and>
         map snd rps = map snd acc @ map wrap rs"
  using assms
proof (induction rs arbitrary: acc sz)
  case Nil
  then show ?case by auto
next
  case (Cons r rs)
  let ?acc = "acc @ [(sz, wrap r)]"
  from Cons.prems(1)
  have run: "wrapRefreshers P wrap rs ?acc (sz + rp_Size P (wrap r)) = (rps, whole)"
    by (simp add: Let_def)
  have c: "chained P 0 ?acc" using Cons.prems(2,3) by (simp add: chained_snoc)
  have s: "sz + rp_Size P (wrap r) = sum_list (map (\<lambda>y. rp_Size P (snd y)) ?acc)"
    using Cons.prems(3) by simp
  from Cons.IH[OF run c s] show ?case by simp
qed

lemma chained_nth:
  "chained P s rps \<Longrightarrow>
     (rps \<noteq> [] \<longrightarrow> fst (rps ! 0) = s) \<and>
     (\<forall>i. 0 < i \<and> i < length rps \<longrightarrow>
        fst (rps ! i) = fst (rps ! (i - 1)) + rp_Size P (snd (rps ! (i - 1))))"
proof (induction rps arbitrary: s)
  case Nil
  then show ?case by simp
next
  case (Cons x xs)
  from Cons.prems have hd: "fst x = s" and tl: "chained P (s + rp_Size P (snd x)) xs"
    by simp_all
  note ih = Cons.IH[OF tl]
  show ?case
  proof (intro conjI impI allI)
    show "fst ((x # xs) ! 0) = s" using hd by simp
  next
    fix i
    assume i: "0 < i \<and> i < length (x # xs)"
    then obtain j where j: "i = Suc j" by (cases i) auto
    show "fst ((x # xs) ! i) = fst ((x # xs) ! (i - 1)) + rp_Size P (snd ((x # xs) ! (i - 1)))"
    proof (cases j)
      case 0
      with i j ih hd show ?thesis by (cases xs) auto
    next
      case (Suc k)
      with i j ih show ?thesis by auto
    qed
  qed
qed

lemma fold_is_sum_list:
  "fold (\<lambda>wrapped sum. sum + rp_Size P (snd wrapped)) rps (a :: int64) =
     a + sum_list (map (\<lambda>x. rp_Size P (snd x)) rps)"
  by (induction rps arbitrary: a) (simp_all add: add.assoc)

lemma some_later_index:
  "(\<exists>i \<in> set [0 ..< n]. i > 0 \<and> \<not> Q i) \<longleftrightarrow> \<not> (\<forall>i. 0 < i \<and> i < n \<longrightarrow> Q i)"
  by auto

lemma panic_chain:
  "((if a then Panic m1 else if b then Panic m2 else if c then Panic m3
     else if d then Panic m4 else if e then Panic m5 else if f then Panic m6
     else Return ()) = Return ()) \<longleftrightarrow> (\<not> a \<and> \<not> b \<and> \<not> c \<and> \<not> d \<and> \<not> e \<and> \<not> f)"
  by simp

lemma mrp_CheckInvariants_iff:
  "mrp_CheckInvariants P R mrp = Return () \<longleftrightarrow>
     \<not> mrp_destroyed mrp \<and>
     (\<forall>x \<in> set (mrp_rps mrp). \<not> word_sless (rp_Size P (snd x)) 0) \<and>
     layoutInvariants P R mrp"
proof -
  have a: "(length (mrp_rps mrp) \<noteq> 0 \<and> fst (mrp_rps mrp ! 0) \<noteq> 0) \<longleftrightarrow>
      \<not> (mrp_rps mrp \<noteq> [] \<longrightarrow> fst (mrp_rps mrp ! 0) = 0)"
    by auto
  have c: "(fold (\<lambda>wrapped sum. sum + rp_Size P (snd wrapped)) (mrp_rps mrp) 0 \<noteq> mrp_size mrp) \<longleftrightarrow>
      \<not> (mrp_size mrp = sum_list (map (\<lambda>x. rp_Size P (snd x)) (mrp_rps mrp)))"
    by (auto simp: fold_is_sum_list)
  have d: "(case mrp_lease mrp of None \<Rightarrow> False | Some l \<Rightarrow> mrp_size mrp \<noteq> rl_Size R l) \<longleftrightarrow>
      \<not> (\<forall>l. mrp_lease mrp = Some l \<longrightarrow> rl_Size R l = mrp_size mrp)"
    by (cases "mrp_lease mrp") auto
  show ?thesis
    unfolding mrp_CheckInvariants_def panic_chain layoutInvariants_def a c d some_later_index
    by blast
qed

text \<open>
  The layout invariants speak of the offsets and sizes of the entries, of \<open>size\<close> and of
  the lease's size only.
\<close>

lemma layoutInvariants_transfer:
  assumes inv: "layoutInvariants P R mrp"
    and shape: "map (\<lambda>x. (fst x, rp_Size P (snd x))) (mrp_rps mrp') =
                map (\<lambda>x. (fst x, rp_Size P (snd x))) (mrp_rps mrp)"
    and sz: "mrp_size mrp' = mrp_size mrp"
    and lease: "\<forall>l'. mrp_lease mrp' = Some l' \<longrightarrow> rl_Size R l' = mrp_size mrp"
  shows "layoutInvariants P R mrp'"
proof -
  from shape have len: "length (mrp_rps mrp') = length (mrp_rps mrp)"
    by (rule map_eq_imp_length_eq)
  have nth: "fst (mrp_rps mrp' ! i) = fst (mrp_rps mrp ! i) \<and>
             rp_Size P (snd (mrp_rps mrp' ! i)) = rp_Size P (snd (mrp_rps mrp ! i))"
    if "i < length (mrp_rps mrp)" for i
  proof -
    from that len
    have "map (\<lambda>x. (fst x, rp_Size P (snd x))) (mrp_rps mrp') ! i =
          (fst (mrp_rps mrp' ! i), rp_Size P (snd (mrp_rps mrp' ! i)))"
      and "map (\<lambda>x. (fst x, rp_Size P (snd x))) (mrp_rps mrp) ! i =
          (fst (mrp_rps mrp ! i), rp_Size P (snd (mrp_rps mrp ! i)))"
      by simp_all
    with shape show ?thesis by simp
  qed
  have "map (\<lambda>x. rp_Size P (snd x)) (mrp_rps mrp') =
        map snd (map (\<lambda>x. (fst x, rp_Size P (snd x))) (mrp_rps mrp'))"
    by simp
  also have "\<dots> = map snd (map (\<lambda>x. (fst x, rp_Size P (snd x))) (mrp_rps mrp))"
    by (simp only: shape)
  also have "\<dots> = map (\<lambda>x. rp_Size P (snd x)) (mrp_rps mrp)" by simp
  finally have sums: "sum_list (map (\<lambda>x. rp_Size P (snd x)) (mrp_rps mrp')) =
      sum_list (map (\<lambda>x. rp_Size P (snd x)) (mrp_rps mrp))" by simp
  from len have empty: "mrp_rps mrp' = [] \<longleftrightarrow> mrp_rps mrp = []" by auto
  show ?thesis
    unfolding layoutInvariants_def
  proof (intro conjI allI impI)
    assume "mrp_rps mrp' \<noteq> []"
    with empty inv nth[of 0] show "fst (mrp_rps mrp' ! 0) = 0"
      by (simp add: layoutInvariants_def)
  next
    fix i
    assume i: "0 < i \<and> i < length (mrp_rps mrp')"
    with len have a: "i < length (mrp_rps mrp)" and b: "i - 1 < length (mrp_rps mrp)" by auto
    from inv i len
    have "fst (mrp_rps mrp ! i) =
        fst (mrp_rps mrp ! (i - 1)) + rp_Size P (snd (mrp_rps mrp ! (i - 1)))"
      by (simp add: layoutInvariants_def)
    with nth[OF a] nth[OF b]
    show "fst (mrp_rps mrp' ! i) =
        fst (mrp_rps mrp' ! (i - 1)) + rp_Size P (snd (mrp_rps mrp' ! (i - 1)))"
      by simp
  next
    from inv sums sz
    show "mrp_size mrp' = sum_list (map (\<lambda>x. rp_Size P (snd x)) (mrp_rps mrp'))"
      by (simp add: layoutInvariants_def)
  next
    fix l
    assume "mrp_lease mrp' = Some l"
    with lease sz show "rl_Size R l = mrp_size mrp'" by simp
  qed
qed

lemma readFromOne_shape:
  assumes sc: "Size_constant P" and one: "readFromOne P m j q k = Return (m1, x)"
  shows "map (\<lambda>x. (fst x, rp_Size P (snd x))) (mrp_rps m1) =
         map (\<lambda>x. (fst x, rp_Size P (snd x))) (mrp_rps m) \<and>
         mrp_size m1 = mrp_size m \<and> mrp_lease m1 = mrp_lease m"
proof -
  obtain p1 n1 e1 where "x = (p1, n1, e1)" by (cases x) auto
  with one have "readFromOne P m j q k = Return (m1, p1, n1, e1)" by simp
  from readFromOne_fields[OF this] obtain wrapped' r
    where j: "j < length (mrp_rps m)"
      and rd: "rp_ReadAt P (snd (mrp_rps m ! j)) (length q) (k - fst (mrp_rps m ! j)) = (wrapped', r)"
      and m1: "m1 = m\<lparr> mrp_rps := (mrp_rps m)[j := (fst (mrp_rps m ! j), wrapped')] \<rparr>"
    by blast
  let ?f = "\<lambda>x. (fst x, rp_Size P (snd x))"
  from Size_constant_ReadAt[OF sc rd]
  have "?f (fst (mrp_rps m ! j), wrapped') = ?f (mrp_rps m ! j)" by simp
  also from j have "\<dots> = map ?f (mrp_rps m) ! j" by simp
  finally have "(map ?f (mrp_rps m))[j := ?f (fst (mrp_rps m ! j), wrapped')] = map ?f (mrp_rps m)"
    by (simp only: list_update_id)
  then have "map ?f ((mrp_rps m)[j := (fst (mrp_rps m ! j), wrapped')]) = map ?f (mrp_rps m)"
    by (simp only: map_update)
  with m1 show ?thesis by simp
qed

lemma mrp_ReadAt_wrapped_shape:
  fixes mrp :: "('p, 'r, 'f) multiReadProxy"
  assumes sc: "Size_constant P" and run: "mrp_ReadAt_wrapped P mrp n p off = Return (mrp', r)"
  shows "map (\<lambda>x. (fst x, rp_Size P (snd x))) (mrp_rps mrp') =
         map (\<lambda>x. (fst x, rp_Size P (snd x))) (mrp_rps mrp) \<and>
         mrp_size mrp' = mrp_size mrp \<and> mrp_lease mrp' = mrp_lease mrp"
proof (rule mrp_ReadAt_wrapped_keeps[OF _ run,
      where Q = "\<lambda>m. map (\<lambda>x. (fst x, rp_Size P (snd x))) (mrp_rps m) =
         map (\<lambda>x. (fst x, rp_Size P (snd x))) (mrp_rps mrp) \<and>
         mrp_size m = mrp_size mrp \<and> mrp_lease m = mrp_lease mrp"])
  fix m m1 :: "('p, 'r, 'f) multiReadProxy" and j q k x
  assume "map (\<lambda>x. (fst x, rp_Size P (snd x))) (mrp_rps m) =
         map (\<lambda>x. (fst x, rp_Size P (snd x))) (mrp_rps mrp) \<and>
         mrp_size m = mrp_size mrp \<and> mrp_lease m = mrp_lease mrp"
    and "readFromOne P m j q k = Return (m1, x)"
  with readFromOne_shape[OF sc, of m j q k m1 x]
  show "map (\<lambda>x. (fst x, rp_Size P (snd x))) (mrp_rps m1) =
         map (\<lambda>x. (fst x, rp_Size P (snd x))) (mrp_rps mrp) \<and>
         mrp_size m1 = mrp_size mrp \<and> mrp_lease m1 = mrp_lease mrp"
    by simp
qed simp

lemma mrp_ReadAt_layout:
  assumes sc: "Size_constant P" and lc: "leaseSize_constant R"
    and inv: "layoutInvariants P R mrp"
    and run: "mrp_ReadAt P R mrp p off = Return (mrp', r)"
  shows "layoutInvariants P R mrp'"
proof (cases "mrp_lease mrp")
  case None
  with run have "mrp_ReadAt_wrapped P mrp 0 p off = Return (mrp', r)"
    by (simp add: mrp_ReadAt_def)
  from mrp_ReadAt_wrapped_shape[OF sc this] None
  have "map (\<lambda>x. (fst x, rp_Size P (snd x))) (mrp_rps mrp') =
        map (\<lambda>x. (fst x, rp_Size P (snd x))) (mrp_rps mrp)"
    and "mrp_size mrp' = mrp_size mrp"
    and "\<forall>l'. mrp_lease mrp' = Some l' \<longrightarrow> rl_Size R l' = mrp_size mrp"
    by simp_all
  then show ?thesis by (rule layoutInvariants_transfer[OF inv])
next
  case (Some l)
  obtain l' w n err where rd: "rl_ReadAt R l (length p) off = (l', w, n, err)"
    by (cases "rl_ReadAt R l (length p) off") auto
  from lc rd have "rl_Size R l' = rl_Size R l"
    unfolding leaseSize_constant_def by (metis fst_conv)
  with inv Some have l': "rl_Size R l' = mrp_size mrp" by (simp add: layoutInvariants_def)
  show ?thesis
  proof (cases "err = Some RevokedError")
    case True
    with run Some rd
    have "mrp_ReadAt_wrapped P (mrp\<lparr> mrp_lease := None \<rparr>) n (stored w p) off = Return (mrp', r)"
      by (simp add: mrp_ReadAt_def)
    from mrp_ReadAt_wrapped_shape[OF sc this]
    have "map (\<lambda>x. (fst x, rp_Size P (snd x))) (mrp_rps mrp') =
          map (\<lambda>x. (fst x, rp_Size P (snd x))) (mrp_rps mrp)"
      and "mrp_size mrp' = mrp_size mrp"
      and "\<forall>l'. mrp_lease mrp' = Some l' \<longrightarrow> rl_Size R l' = mrp_size mrp"
      by simp_all
    then show ?thesis by (rule layoutInvariants_transfer[OF inv])
  next
    case False
    with run Some rd have "mrp' = mrp\<lparr> mrp_lease := Some l' \<rparr>"
      by (auto simp: mrp_ReadAt_def split: option.splits if_splits)
    with l'
    have "map (\<lambda>x. (fst x, rp_Size P (snd x))) (mrp_rps mrp') =
          map (\<lambda>x. (fst x, rp_Size P (snd x))) (mrp_rps mrp)"
      and "mrp_size mrp' = mrp_size mrp"
      and "\<forall>l'. mrp_lease mrp' = Some l' \<longrightarrow> rl_Size R l' = mrp_size mrp"
      by simp_all
    then show ?thesis by (rule layoutInvariants_transfer[OF inv])
  qed
qed

lemma leaseSize_constant_leasedFile: "leaseSize_constant leasedFile"
  by (simp add: leaseSize_constant_def leasedFile_def split: prod.splits)

text \<open>
  C8. A proxy returned by \<^verbatim>\<open>NewMultiReadProxy\<close> wraps one proxy per refresher, in order,
  and satisfies the layout invariants: the first offset is 0, each later offset is the
  previous offset plus the previous size, \<open>size\<close> is the sum of the wrapped sizes, and an
  attached lease has that size (sums of \<^verbatim>\<open>int64\<close> values). Provided the sizes of
  wrapped proxies and of leases are constant, every \<^verbatim>\<open>ReadAt\<close> that returns leaves them
  satisfied.
\<close>

theorem layoutInvariants_established_and_kept:
  "(\<forall>mrp. NewMultiReadProxy P R NewReadProxy fl refreshers rl = Return mrp \<longrightarrow>
      layoutInvariants P R mrp \<and> map snd (mrp_rps mrp) = map (NewReadProxy fl) refreshers \<and>
      mrp_lease mrp = rl) \<and>
   (Size_constant P \<and> leaseSize_constant R \<and> layoutInvariants P R mrp0 \<longrightarrow>
      (\<forall>mrp' r. mrp_ReadAt P R mrp0 p off = Return (mrp', r) \<longrightarrow> layoutInvariants P R mrp'))"
proof (intro conjI allI impI)
  fix mrp
  assume new: "NewMultiReadProxy P R NewReadProxy fl refreshers rl = Return mrp"
  obtain rps whole where w: "wrapRefreshers P (NewReadProxy fl) refreshers [] 0 = (rps, whole)"
    by (cases "wrapRefreshers P (NewReadProxy fl) refreshers [] 0") auto
  from wrapRefreshers_chained[OF w]
  have ch: "chained P 0 rps" and tot: "whole = sum_list (map (\<lambda>y. rp_Size P (snd y)) rps)"
    and sub: "map snd rps = map (NewReadProxy fl) refreshers"
    by simp_all
  from new w have ok: "\<forall>l. rl = Some l \<longrightarrow> rl_Size R l = whole"
    and mrp: "mrp = \<lparr> mrp_size = whole, mrp_leaser = fl, mrp_rps = rps, mrp_lease = rl,
                      mrp_destroyed = False \<rparr>"
    by (auto simp: NewMultiReadProxy_def split: if_splits option.splits)
  from chained_nth[OF ch] tot ok show "layoutInvariants P R mrp"
    by (simp add: layoutInvariants_def mrp)
  from sub show "map snd (mrp_rps mrp) = map (NewReadProxy fl) refreshers" by (simp add: mrp)
  show "mrp_lease mrp = rl" by (simp add: mrp)
next
  fix mrp' r
  assume "Size_constant P \<and> leaseSize_constant R \<and> layoutInvariants P R mrp0"
    and "mrp_ReadAt P R mrp0 p off = Return (mrp', r)"
  then show "layoutInvariants P R mrp'" using mrp_ReadAt_layout by blast
qed

theorem layoutInvariants_established_and_kept_witness:
  "NewMultiReadProxy remoteProxy leasedFile (\<lambda>fl r. r) True
     [\<lparr> remote_bytes = [1, 2], outages = 0 \<rparr>, \<lparr> remote_bytes = [3, 4], outages = 1 \<rparr>]
     (Some \<lparr> leased_bytes = [1, 2, 3, 4], revoked = True \<rparr>) =
     Return \<lparr> mrp_size = 4, mrp_leaser = True,
              mrp_rps = [(0, \<lparr> remote_bytes = [1, 2], outages = 0 \<rparr>),
                         (2, \<lparr> remote_bytes = [3, 4], outages = 1 \<rparr>)],
              mrp_lease = Some \<lparr> leased_bytes = [1, 2, 3, 4], revoked = True \<rparr>,
              mrp_destroyed = False \<rparr> \<and>
   layoutInvariants remoteProxy leasedFile
     \<lparr> mrp_size = 4, mrp_leaser = True,
       mrp_rps = [(0, \<lparr> remote_bytes = [1, 2], outages = 0 \<rparr>),
                  (2, \<lparr> remote_bytes = [3, 4], outages = 1 \<rparr>)],
       mrp_lease = Some \<lparr> leased_bytes = [1, 2, 3, 4], revoked = True \<rparr>,
       mrp_destroyed = False \<rparr> \<and>
   Size_constant remoteProxy \<and> leaseSize_constant leasedFile \<and>
   mrp_ReadAt remoteProxy leasedFile
     \<lparr> mrp_size = 4, mrp_leaser = True,
       mrp_rps = [(0, \<lparr> remote_bytes = [1, 2], outages = 0 \<rparr>),
                  (2, \<lparr> remote_bytes = [3, 4], outages = 1 \<rparr>)],
       mrp_lease = Some \<lparr> leased_bytes = [1, 2, 3, 4], revoked = True \<rparr>,
       mrp_destroyed = False \<rparr> [0, 0, 0] 1 =
     Return (\<lparr> mrp_size = 4, mrp_leaser = True,
               mrp_rps = [(0, \<lparr> remote_bytes = [1, 2], outages = 0 \<rparr>),
                          (2, \<lparr> remote_bytes = [3, 4], outages = 0 \<rparr>)],
               mrp_lease = None, mrp_destroyed = False \<rparr>,
             [2, 0, 0], 1, Some (OtherError ''remote I/O'')) \<and>
   layoutInvariants remoteProxy leasedFile
     \<lparr> mrp_size = 4, mrp_leaser = True,
       mrp_rps = [(0, \<lparr> remote_bytes = [1, 2], outages = 0 \<rparr>),
                  (2, \<lparr> remote_bytes = [3, 4], outages = 0 \<rparr>)],
       mrp_lease = None, mrp_destroyed = False \<rparr>"
proof -
  let ?rs = "[\<lparr> remote_bytes = [1, 2], outages = 0 \<rparr>, \<lparr> remote_bytes = [3, 4], outages = 1 \<rparr>]"
  let ?rl = "Some \<lparr> leased_bytes = [1, 2, 3, 4], revoked = True \<rparr>"
  let ?m0 = "\<lparr> mrp_size = 4, mrp_leaser = True,
       mrp_rps = [(0, \<lparr> remote_bytes = [1, 2], outages = 0 \<rparr>),
                  (2, \<lparr> remote_bytes = [3, 4], outages = 1 \<rparr>)],
       mrp_lease = ?rl, mrp_destroyed = False \<rparr>"
  let ?m1 = "\<lparr> mrp_size = 4, mrp_leaser = True,
               mrp_rps = [(0, \<lparr> remote_bytes = [1, 2], outages = 0 \<rparr>),
                          (2, \<lparr> remote_bytes = [3, 4], outages = 0 \<rparr>)],
               mrp_lease = (None :: leased option), mrp_destroyed = False \<rparr>"
  have new: "NewMultiReadProxy remoteProxy leasedFile (\<lambda>fl r. r) True ?rs ?rl = Return ?m0"
    by code_simp
  have rd: "mrp_ReadAt remoteProxy leasedFile ?m0 [0, 0, 0] 1 =
      Return (?m1, [2, 0, 0], 1, Some (OtherError ''remote I/O''))"
    by code_simp
  note T = layoutInvariants_established_and_kept[of remoteProxy leasedFile "\<lambda>fl r. r" True ?rs ?rl
      ?m0 "[0, 0, 0]" 1]
  from T new have inv0: "layoutInvariants remoteProxy leasedFile ?m0" by blast
  from T inv0 rd Size_constant_remoteProxy leaseSize_constant_leasedFile
  have inv1: "layoutInvariants remoteProxy leasedFile ?m1" by blast
  from new inv0 rd inv1 Size_constant_remoteProxy leaseSize_constant_leasedFile
  show ?thesis by simp
qed

end
